theory Spec2Isabelle
  imports Main "HOL-Library.Multiset" "HOL-Library.Sublist"
begin

section \<open>Strings\<close>

text \<open>
  A JavaScript string is a sequence of code units. The model uses \<^typ>\<open>string\<close>; a
  \<^typ>\<open>char\<close> stands for a code unit in the range U+0000 to U+00FF. The functions below
  are the \<open>String.prototype\<close> and \<open>Array.prototype\<close> methods that
  \<open>migration.service.ts\<close> calls, restricted to that range.
\<close>

text \<open>\<open>a < b\<close> on strings: code units compared left to right, a proper prefix is smaller.\<close>

fun lessString :: "string \<Rightarrow> string \<Rightarrow> bool" where
  "lessString [] [] = False"
| "lessString [] (y # ys) = True"
| "lessString (x # xs) [] = False"
| "lessString (x # xs) (y # ys) =
     ((of_char x :: nat) < of_char y \<or> (x = y \<and> lessString xs ys))"

text \<open>\<open>s.split(sep)\<close> for a one-character separator: never the empty array.\<close>

fun split :: "char \<Rightarrow> string \<Rightarrow> string list" where
  "split sep [] = [[]]"
| "split sep (c # cs) =
     (if c = sep then [] # split sep cs
      else (case split sep cs of [] \<Rightarrow> [[c]] | p # ps \<Rightarrow> (c # p) # ps))"

text \<open>\<open>parts.join(sep)\<close>.\<close>

fun join :: "char \<Rightarrow> string list \<Rightarrow> string" where
  "join sep [] = []"
| "join sep [p] = p"
| "join sep (p # q # ps) = p @ sep # join sep (q # ps)"

text \<open>\<open>parts.shift()\<close>, keeping the array that is left; on the empty array it does nothing.\<close>

fun shift :: "'a list \<Rightarrow> 'a list" where
  "shift [] = []"
| "shift (p # ps) = ps"

text \<open>\<open>s.includes(t)\<close>: \<open>t\<close> occurs in \<open>s\<close> as a contiguous run of code units.\<close>

fun startsWith :: "string \<Rightarrow> string \<Rightarrow> bool" where
  "startsWith s [] = True"
| "startsWith [] (c # t) = False"
| "startsWith (d # s) (c # t) = (d = c \<and> startsWith s t)"

fun includesStr :: "string \<Rightarrow> string \<Rightarrow> bool" where
  "includesStr [] t = (t = [])"
| "includesStr (d # s) t = (startsWith (d # s) t \<or> includesStr s t)"

text \<open>\<open>xs.indexOf(x)\<close>: the first position holding \<open>x\<close> (strict equality), or \<open>-1\<close>.\<close>

fun indexOf :: "'a list \<Rightarrow> 'a \<Rightarrow> int" where
  "indexOf [] x = - 1"
| "indexOf (y # ys) x =
     (if y = x then 0 else (let i = indexOf ys x in if i = - 1 then - 1 else i + 1))"

text \<open>White space and line terminators of the language, among the code units modelled.\<close>

definition isLineTerminator :: "char \<Rightarrow> bool" where
  "isLineTerminator c = ((of_char c :: nat) = 10 \<or> (of_char c :: nat) = 13)"

definition isWhiteSpace :: "char \<Rightarrow> bool" where
  "isWhiteSpace c =
     (let n = (of_char c :: nat)
      in n = 9 \<or> n = 10 \<or> n = 11 \<or> n = 12 \<or> n = 13 \<or> n = 32 \<or> n = 160)"

definition trim :: "string \<Rightarrow> string" where
  "trim s = rev (dropWhile isWhiteSpace (rev (dropWhile isWhiteSpace s)))"

definition lowerChar :: "char \<Rightarrow> char" where
  "lowerChar c =
     (let n = (of_char c :: nat)
      in if (65 \<le> n \<and> n \<le> 90) \<or> (192 \<le> n \<and> n \<le> 222 \<and> n \<noteq> 215)
         then char_of (n + 32) else c)"

definition toLowerCase :: "string \<Rightarrow> string" where
  "toLowerCase s = map lowerChar s"

text \<open>\<open>s.replace(/_/g, '-')\<close>.\<close>

definition replaceUnderscores :: "string \<Rightarrow> string" where
  "replaceUnderscores s = map (\<lambda>c. if c = CHR ''_'' then CHR ''-'' else c) s"

text \<open>
  \<open>file.replace(/(.ts)$/g, '')\<close>: the dot of the pattern is not escaped, so it matches any
  code unit that is not a line terminator; the last three code units go when the name ends
  in such a code unit followed by \<open>ts\<close>.
\<close>

definition stripTs :: "string \<Rightarrow> string" where
  "stripTs file =
     (case rev file of
        s # t # d # front \<Rightarrow>
          (if s = CHR ''s'' \<and> t = CHR ''t'' \<and> \<not> isLineTerminator d then rev front else file)
      | _ \<Rightarrow> file)"

text \<open>\<open>n.toString()\<close> for a non-negative integer, and \<open>s.padStart(2, '0')\<close>.\<close>

definition digitChar :: "nat \<Rightarrow> char" where
  "digitChar d = char_of (48 + d)"

fun toString :: "nat \<Rightarrow> string" where
  "toString n = (if n < 10 then [digitChar n] else toString (n div 10) @ [digitChar (n mod 10)])"

declare toString.simps [simp del]

definition padStart2 :: "string \<Rightarrow> string" where
  "padStart2 s = replicate (2 - length s) CHR ''0'' @ s"

section \<open>The identifier generator\<close>

text \<open>
  What \<open>new Date()\<close> gives: the local wall-clock components read by the getters
  (\<open>getMonth\<close> counts from 0) and the text \<open>toISOString\<close> returns.
\<close>

record date =
  getFullYear :: nat
  getMonth :: nat
  getDate :: nat
  getHours :: nat
  getMinutes :: nat
  getSeconds :: nat
  toISOString :: string

text \<open>\<open>appendTimestampToFilename\<close>, with the date it reads as an argument.\<close>

definition appendTimestampToFilename :: "date \<Rightarrow> string \<Rightarrow> string option \<Rightarrow> string" where
  "appendTimestampToFilename d filename extension =
     (let transformedName = replaceUnderscores (toLowerCase (trim filename));
          hr = padStart2 (toString (getHours d));
          min = padStart2 (toString (getMinutes d));
          sec = padStart2 (toString (getSeconds d));
          month = padStart2 (toString (getMonth d + 1));
          day = padStart2 (toString (getDate d));
          year = toString (getFullYear d);
          stringDate = month @ ''-'' @ day @ ''-'' @ year @ ''_'' @ hr @ min @ sec
      in transformedName @ ''_'' @ stringDate @
           (case extension of Some e \<Rightarrow> ''.'' @ e | None \<Rightarrow> ''''))"

section \<open>The sequencer\<close>

text \<open>The comparison function handed to \<open>sort\<close> in \<open>sortFiles\<close>.\<close>

definition filePart :: "string \<Rightarrow> string" where
  "filePart file = join CHR ''_'' (shift (split CHR ''_'' file))"

definition compareFiles :: "string \<Rightarrow> string \<Rightarrow> int" where
  "compareFiles file1 file2 =
     (let file1Part = filePart file1; file2Part = filePart file2
      in if file1Part = file2Part then 0 else if lessString file1Part file2Part then - 1 else 1)"

text \<open>
  \<open>Array.prototype.sort\<close> is stable, and \<open>compareFiles\<close> is a consistent comparison,
  so its result is the one stable arrangement in ascending order; insertion from the right
  computes that arrangement.
\<close>

fun insertFile :: "string \<Rightarrow> string list \<Rightarrow> string list" where
  "insertFile f [] = [f]"
| "insertFile f (g # gs) = (if compareFiles f g \<le> 0 then f # g # gs else g # insertFile f gs)"

fun sortFiles :: "string list \<Rightarrow> string list" where
  "sortFiles [] = []"
| "sortFiles (f # fs) = insertFile f (sortFiles fs)"

text \<open>
  The spec's wording of the sort key, for comparison with \<open>filePart\<close>: what is left of
  the name once the segment before the first underscore, and that underscore, are gone.
\<close>

definition suffixAfterFirstUnderscore :: "string \<Rightarrow> string" where
  "suffixAfterFirstUnderscore file = drop 1 (dropWhile (\<lambda>c. c \<noteq> CHR ''_'') file)"

section \<open>The service and its surroundings\<close>

text \<open>
  An \<open>async\<close> function gives a promise: it is fulfilled, it is rejected with the
  error thrown, or it never settles.
\<close>

datatype error = Error string

fun message :: "error \<Rightarrow> string" where
  "message (Error m) = m"

datatype 'a promise = Pending | Resolved 'a | Rejected error

text \<open>What the process prints: \<open>debug(...)\<close> lines and the one \<open>console.log\<close> call.\<close>

datatype printout = Debug string | ConsoleLog "string list" "string list"

text \<open>The model \<open>Migrations\<close>: one ledger entry.\<close>

record Migrations =
  filename :: string
  dateMigrated :: string

text \<open>
  A migration file's \<open>up\<close> and \<open>down\<close>: asynchronous functions of the repositories
  handed to \<open>migrate\<close> (\<open>null\<close> is \<open>None\<close>). What they do to the database is a
  change of the application's store \<open>'s\<close>, which the model keeps apart from the collection
  behind \<open>migrationRepo\<close>: the ledger is read and written by the service alone.
\<close>

type_synonym ('r, 's) transform = "'r option \<Rightarrow> 's \<Rightarrow> unit promise \<times> 's"

record ('r, 's) migrationActions =
  up :: "('r, 's) transform option"
  down :: "('r, 's) transform option"

text \<open>The events a child process emits, in order; \<open>close\<close> carries the exit code.\<close>

datatype childEvent = ErrorEvent error | CloseEvent "int option"

record MongoDbBackUpOptions =
  DATASOURCE_URL :: "string option"
  DB_BACKUP_DIR :: "string option"
  ROOT_DIR :: "string option"

text \<open>
  The fields of \<open>MigrationService\<close> and the parts of the platform it calls that no run
  changes: the compiled migration files (\<open>existsSync\<close> on them, \<open>import\<close>),
  \<open>spawn\<close>, \<open>path.join\<close>, and the clock as the sequence of dates that successive
  \<open>new Date()\<close> give.
\<close>

record ('r, 's) service =
  rawMigrationDir :: string
  builtMigrationDir :: string
  migrationContent :: string
  rootDir :: string
  backUpOptions :: MongoDbBackUpOptions
  existsSync :: "string \<Rightarrow> bool"
  importModule :: "string \<Rightarrow> error + ('r, 's) migrationActions"
  spawn :: "string \<Rightarrow> string list \<Rightarrow> childEvent list"
  pathJoin :: "string \<Rightarrow> string \<Rightarrow> string"
  clock :: "nat \<Rightarrow> date"

text \<open>
  What a run can change: the entries of \<open>rawMigrationDir\<close> (name and content; \<open>None\<close>
  while the directory does not exist), the ledger, the application's store, what was
  printed, and how many dates were read. \<open>calls\<close> and \<open>finds\<close> are observations, not
  program state: every call of an \<open>up\<close> or \<open>down\<close>, with the file and how the call
  settled, and how many times the ledger was read with \<open>migrationRepo.find\<close>.
  Listing a directory that does not exist fails; \<open>migrationRepo.find\<close>,
  \<open>migrationRepo.create\<close>, \<open>mkdirSync\<close> and \<open>writeFile\<close> are taken to succeed.
\<close>

record 's world =
  migrationsDir :: "(string \<times> string) list option"
  ledger :: "Migrations list"
  store :: 's
  printed :: "printout list"
  ticks :: nat
  calls :: "(string \<times> string \<times> unit promise) list"
  finds :: nat

definition debug :: "string \<Rightarrow> 's world \<Rightarrow> 's world" where
  "debug msg w = w\<lparr>printed := printed w @ [Debug msg]\<rparr>"

definition consoleLog :: "string list \<Rightarrow> string list \<Rightarrow> 's world \<Rightarrow> 's world" where
  "consoleLog migratedFilenames filteredFiles w =
     w\<lparr>printed := printed w @ [ConsoleLog migratedFilenames filteredFiles]\<rparr>"

definition newDate :: "('r, 's) service \<Rightarrow> 's world \<Rightarrow> date \<times> 's world" where
  "newDate sv w = (clock sv (ticks w), w\<lparr>ticks := Suc (ticks w)\<rparr>)"

text \<open>
  \<open>readDir(rawMigrationDir)\<close>: the entry names, or the error of a missing directory, whose
  message has the path between single quotes (the code unit 0x27).
\<close>

definition readDir :: "('r, 's) service \<Rightarrow> 's world \<Rightarrow> error + string list" where
  "readDir sv w =
     (case migrationsDir w of
        None \<Rightarrow>
          Inl (Error (''ENOENT: no such file or directory, scandir '' @ [CHR 0x27]
                 @ rawMigrationDir sv @ [CHR 0x27]))
      | Some entries \<Rightarrow> Inr (map fst entries))"

text \<open>\<open>migrationRepo.find({})\<close>: all the entries of the ledger; the read is counted.\<close>

definition migrationRepo_find :: "'s world \<Rightarrow> Migrations list \<times> 's world" where
  "migrationRepo_find w = (ledger w, w\<lparr>finds := Suc (finds w)\<rparr>)"

fun putEntry :: "string \<Rightarrow> string \<Rightarrow> (string \<times> string) list \<Rightarrow> (string \<times> string) list" where
  "putEntry name content [] = [(name, content)]"
| "putEntry name content ((n, c) # entries) =
     (if n = name then (n, content) # entries else (n, c) # putEntry name content entries)"

text \<open>\<open>writeFile\<close> of an entry of \<open>rawMigrationDir\<close>, which exists when it is called.\<close>

definition writeFile :: "string \<Rightarrow> string \<Rightarrow> 's world \<Rightarrow> 's world" where
  "writeFile name content w =
     w\<lparr>migrationsDir := Some (putEntry name content (case migrationsDir w of None \<Rightarrow> [] | Some entries \<Rightarrow> entries))\<rparr>"

text \<open>\<open>migrationRepo.create({filename: file, dateMigrated: new Date().toISOString()})\<close>.\<close>

definition migrationRepo_create :: "('r, 's) service \<Rightarrow> string \<Rightarrow> 's world \<Rightarrow> 's world" where
  "migrationRepo_create sv file w =
     (let (d, w1) = newDate sv w
      in w1\<lparr>ledger := ledger w1 @ [\<lparr>filename = file, dateMigrated = toISOString d\<rparr>]\<rparr>)"

text \<open>Calling a transform: the store changes as the transform says, and the call is noted.\<close>

definition invoke ::
  "string \<Rightarrow> string \<Rightarrow> ('r, 's) transform \<Rightarrow> 'r option \<Rightarrow> 's world \<Rightarrow> unit promise \<times> 's world" where
  "invoke direction file fn repositories w =
     (let (p, s) = fn repositories (store w)
      in (p, w\<lparr>store := s, calls := calls w @ [(direction, file, p)]\<rparr>))"

section \<open>Backup\<close>

text \<open>
  A promise settles once: \<open>resolve\<close> and \<open>reject\<close> on a settled promise do nothing.
\<close>

fun resolve :: "'a \<Rightarrow> 'a promise \<Rightarrow> 'a promise" where
  "resolve v Pending = Resolved v"
| "resolve v p = p"

fun reject :: "error \<Rightarrow> 'a promise \<Rightarrow> 'a promise" where
  "reject e Pending = Rejected e"
| "reject e p = p"

text \<open>The two listeners of \<open>backupMongoDb\<close>, run on the child's events in order.\<close>

fun listen :: "childEvent list \<Rightarrow> bool promise \<Rightarrow> 's world \<Rightarrow> bool promise \<times> 's world" where
  "listen [] p w = (p, w)"
| "listen (ErrorEvent e # evs) p w = listen evs (reject e p) (debug (''error: '' @ message e) w)"
| "listen (CloseEvent code # evs) p w = listen evs (resolve True p) (debug ''Finished backup'' w)"

definition backupMongoDb :: "('r, 's) service \<Rightarrow> 's world \<Rightarrow> bool promise \<times> 's world" where
  "backupMongoDb sv w =
     (let DATASOURCE_URL' = (case DATASOURCE_URL (backUpOptions sv) of
              Some u \<Rightarrow> u
            | None \<Rightarrow> ''mongodb://127.0.0.1:27017/mongodbName?retryWrites=true&w=majority'');
          DB_BACKUP_DIR' = (case DB_BACKUP_DIR (backUpOptions sv) of
              Some b \<Rightarrow> b | None \<Rightarrow> ''../backup'');
          ROOT_DIR' = (case ROOT_DIR (backUpOptions sv) of Some r \<Rightarrow> r | None \<Rightarrow> rootDir sv);
          (d, w1) = newDate sv w;
          pathForDbBackup =
            pathJoin sv ROOT_DIR' (DB_BACKUP_DIR' @ ''/'' @ appendTimestampToFilename d ''db'' None);
          w2 = debug (''Backing up database to: '' @ pathForDbBackup) w1;
          ls = spawn sv ''sh''
                 [''-c'', ''mongodump -o '' @ pathForDbBackup @ '' --uri='' @ DATASOURCE_URL']
      in listen ls Pending w2)"

section \<open>Creating a migration file\<close>

text \<open>
  A parameter or local that the source calls \<open>filename\<close> is \<open>filename'\<close> here, the
  plain name being the field of \<open>Migrations\<close>.
\<close>

definition generateMigrationFile ::
  "('r, 's) service \<Rightarrow> string \<Rightarrow> 's world \<Rightarrow> unit promise \<times> 's world" where
  "generateMigrationFile sv filename' w =
     (let w1 = (if migrationsDir w = None
                then debug ''Generated migrations folder'' (w\<lparr>migrationsDir := Some []\<rparr>)
                else w);
          transformedName = replaceUnderscores (toLowerCase (trim filename'));
          (d, w2) = newDate sv w1;
          stringDate = appendTimestampToFilename d transformedName (Some ''ts'');
          migrationFilename = rawMigrationDir sv @ ''/'' @ stringDate;
          w3 = writeFile stringDate (migrationContent sv) w2
      in (Resolved (), debug (''Generated migration file '' @ migrationFilename) w3))"

section \<open>Running migrations\<close>

text \<open>
  How a \<open>for\<close> loop of \<open>executeMigration\<close> ends: it runs to its end, a \<open>return\<close>
  in its body leaves the function, an awaited call throws, or an awaited call never settles.
\<close>

datatype flow = Next | Return | Throw error | Stall

text \<open>
  \<open>for (const x of xs) { body }\<close>: the body runs on each element in turn, and the loop
  ends early when the body returns from the function, throws or waits for ever.
\<close>

fun forOf :: "('a \<Rightarrow> 'w \<Rightarrow> flow \<times> 'w) \<Rightarrow> 'a list \<Rightarrow> 'w \<Rightarrow> flow \<times> 'w" where
  "forOf body [] w = (Next, w)"
| "forOf body (x # xs) w =
     (case body x w of
        (Next, w1) \<Rightarrow> forOf body xs w1
      | (Return, w1) \<Rightarrow> (Return, w1)
      | (Throw e, w1) \<Rightarrow> (Throw e, w1)
      | (Stall, w1) \<Rightarrow> (Stall, w1))"

text \<open>The body of the forward run's loop, \<open>for (const file of toMigrateFiles)\<close>.\<close>

definition upBody ::
  "('r, 's) service \<Rightarrow> 'r option \<Rightarrow> bool \<Rightarrow> string \<Rightarrow> 's world \<Rightarrow> flow \<times> 's world" where
  "upBody sv repositories isTest file w =
     (case importModule sv (builtMigrationDir sv @ ''/'' @ stripTs file) of
        Inl e \<Rightarrow> (Throw e, w)
      | Inr migrationActions \<Rightarrow>
          (case up migrationActions of
             None \<Rightarrow> (Return, debug ''migration up function not found'' w)
           | Some upFn \<Rightarrow>
               (case invoke ''up'' file upFn repositories (debug (''Migrating up '' @ file) w) of
                  (Pending, w2) \<Rightarrow> (Stall, w2)
                | (Rejected e, w2) \<Rightarrow> (Throw e, w2)
                | (Resolved u, w2) \<Rightarrow>
                    (Next,
                     debug (file @ '' migrated successfully'')
                       (if \<not> isTest then migrationRepo_create sv file w2 else w2)))))"

text \<open>The body of the reverse run's loop, \<open>for (const file of filteredFiles)\<close>.\<close>

definition downBody ::
  "('r, 's) service \<Rightarrow> 'r option \<Rightarrow> string \<Rightarrow> 's world \<Rightarrow> flow \<times> 's world" where
  "downBody sv repositories file w =
     (let fileToExecute = builtMigrationDir sv @ ''/'' @ stripTs file;
          w1 = debug (''File to execute: '' @ fileToExecute) w
      in if existsSync sv (fileToExecute @ ''.js'') then
           (case importModule sv fileToExecute of
              Inl e \<Rightarrow> (Throw e, w1)
            | Inr migrationActions \<Rightarrow>
                (case down migrationActions of
                   None \<Rightarrow> (Return, debug ''migration down function not found'' w1)
                 | Some downFn \<Rightarrow>
                     (case invoke ''down'' file downFn repositories
                             (debug (''Migrating down '' @ file) w1) of
                        (Pending, w3) \<Rightarrow> (Stall, w3)
                      | (Rejected e, w3) \<Rightarrow> (Throw e, w3)
                      | (Resolved u, w3) \<Rightarrow>
                          (Next, debug (file @ '' migrated down successfully'') w3))))
         else (Next, w1))"

definition notYetMigrated :: string where
  "notYetMigrated =
     ''You'' @ [char_of (39 :: nat)] @ ''re trying to migrate down a file that is not yet migrated''"

text \<open>
  The two selections of \<open>executeMigration\<close>, under the names of the variables that hold
  them: the files of the listing with no ledger entry, and the ledgered names a reverse
  run is asked for. Inside \<open>executeMigration\<close> the two variables are \<open>pending\<close> and
  \<open>selected\<close>.
\<close>

definition toMigrateFiles :: "string list \<Rightarrow> string list \<Rightarrow> string list" where
  "toMigrateFiles files migratedFilenames =
     filter (\<lambda>file. indexOf migratedFilenames file = - 1) files"

definition filteredFiles :: "string list \<Rightarrow> string \<Rightarrow> string list" where
  "filteredFiles migratedFilenames filename' =
     filter (\<lambda>file. includesStr file filename') migratedFilenames"

definition executeMigration ::
  "('r, 's) service \<Rightarrow> string \<Rightarrow> 'r option \<Rightarrow> string \<Rightarrow> bool \<Rightarrow> 's world \<Rightarrow> unit promise \<times> 's world" where
  "executeMigration sv action repositories filename' isTest w =
     (case readDir sv w of
        Inl e \<Rightarrow> (Rejected e, w)
      | Inr files \<Rightarrow>
          (case migrationRepo_find w of
             (migratedFilesFromDb, w0) \<Rightarrow>
               (let migratedFilenames = map Migrations.filename migratedFilesFromDb;
                    pending = toMigrateFiles files migratedFilenames
                in if action = ''backup'' then
                     (case backupMongoDb sv w0 of
                        (Pending, w1) \<Rightarrow> (Pending, w1)
                      | (Rejected e, w1) \<Rightarrow> (Rejected e, w1)
                      | (Resolved b, w1) \<Rightarrow> (Resolved (), w1))
                   else if action = ''down'' then
                     (if filename' = '''' then (Resolved (), debug ''Filename is missing'' w0)
                      else
                        (let selected = filteredFiles migratedFilenames filename'
                         in if length selected = 0 then (Resolved (), debug notYetMigrated w0)
                            else
                              (case forOf (downBody sv repositories) selected w0 of
                                 (Next, w1) \<Rightarrow>
                                   (Resolved (), consoleLog migratedFilenames selected w1)
                               | (Return, w1) \<Rightarrow> (Resolved (), w1)
                               | (Throw e, w1) \<Rightarrow> (Rejected e, w1)
                               | (Stall, w1) \<Rightarrow> (Pending, w1))))
                   else
                     (case forOf (upBody sv repositories isTest) (sortFiles pending)
                             (if length pending = 0
                              then debug ''No migrations to execute. Database is up to date'' w0
                              else w0) of
                        (Next, w1) \<Rightarrow> (Resolved (), w1)
                      | (Return, w1) \<Rightarrow> (Resolved (), w1)
                      | (Throw e, w1) \<Rightarrow> (Rejected e, w1)
                      | (Stall, w1) \<Rightarrow> (Pending, w1)))))"

text \<open>\<open>args[i]\<close> when it is truthy: present and not the empty string.\<close>

fun truthyArg :: "string list \<Rightarrow> nat \<Rightarrow> string option" where
  "truthyArg [] i = None"
| "truthyArg (a # as) 0 = (if a = '''' then None else Some a)"
| "truthyArg (a # as) (Suc i) = truthyArg as i"

definition migrate ::
  "('r, 's) service \<Rightarrow> string list \<Rightarrow> 'r option \<Rightarrow> 's world \<Rightarrow> unit promise \<times> 's world" where
  "migrate sv args repositories w =
     (let action = truthyArg args 2;
          filename' = truthyArg args 3;
          isTest = (truthyArg args 3 = Some ''test'')
      in if action = Some ''create'' then
           (case filename' of
              None \<Rightarrow> (Rejected (Error ''Filename is missing''), w)
            | Some name \<Rightarrow> generateMigrationFile sv name w)
         else if action = Some ''up'' \<or> action = Some ''down'' then
           executeMigration sv (case action of Some a \<Rightarrow> a | None \<Rightarrow> '''') repositories
             (case filename' of Some name \<Rightarrow> name | None \<Rightarrow> '''') isTest w
         else if action = Some ''backup'' then
           executeMigration sv ''backup'' repositories '''' False w
         else
           (Resolved (),
            debug ''Command <down> Example: npm run migrate down''
              (debug ''Command <up> Example: npm run migrate up''
                 (debug ''Command <create> Example: npm run migrate create <migration-name>'' w))))"

section \<open>Concrete inputs\<close>

text \<open>The instant 2024-05-07 03:04:05, local time; \<open>getMonth\<close> gives 4 for May.\<close>

definition instant :: date where
  "instant = \<lparr>getFullYear = 2024, getMonth = 4, getDate = 7, getHours = 3, getMinutes = 4,
     getSeconds = 5, toISOString = ''2024-05-07T03:04:05.000Z''\<rparr>"

text \<open>
  A small installation. Its store is the list of lines its migrations have written. Four
  migration files are compiled: \<open>users\<close> and \<open>tags\<close> have an \<open>up\<close> and a \<open>down\<close> that
  write a line, the \<open>up\<close> of \<open>orders\<close> throws, and \<open>audit\<close> exports neither function.
  Its database is given by a URL of its own, and the shell it spawns for the dump closes
  with exit code 1, as it does when \<open>mongodump\<close> fails; any other command closes with 0.
\<close>

definition demoOptions :: MongoDbBackUpOptions where
  "demoOptions = \<lparr>DATASOURCE_URL = Some ''mongodb://127.0.0.1:27017/app'',
     DB_BACKUP_DIR = Some ''backup'', ROOT_DIR = None\<rparr>"

definition writes :: "string \<Rightarrow> (unit, string list) transform" where
  "writes line repositories s = (Resolved (), s @ [line])"

definition failWith :: "string \<Rightarrow> (unit, string list) transform" where
  "failWith msg repositories s = (Rejected (Error msg), s)"

definition usersFile :: string where "usersFile = ''users_05-07-2024_030405.ts''"
definition ordersFile :: string where "ordersFile = ''orders_05-08-2024_010101.ts''"
definition auditFile :: string where "auditFile = ''audit_05-09-2024_120000.ts''"
definition tagsFile :: string where "tagsFile = ''tags_05-10-2024_120000.ts''"

definition demoModules :: "string \<Rightarrow> error + (unit, string list) migrationActions" where
  "demoModules path =
     (if path = ''/app/dist/migrations/users_05-07-2024_030405''
      then Inr \<lparr>up = Some (writes ''users up''), down = Some (writes ''users down'')\<rparr>
      else if path = ''/app/dist/migrations/orders_05-08-2024_010101''
      then Inr \<lparr>up = Some (failWith ''orders failed''), down = None\<rparr>
      else if path = ''/app/dist/migrations/audit_05-09-2024_120000''
      then Inr \<lparr>up = None, down = None\<rparr>
      else if path = ''/app/dist/migrations/tags_05-10-2024_120000''
      then Inr \<lparr>up = Some (writes ''tags up''), down = Some (writes ''tags down'')\<rparr>
      else Inl (Error (''Cannot find module '' @ path)))"

definition demo :: "(unit, string list) service" where
  "demo = \<lparr>rawMigrationDir = ''/app/src/migrations'',
     builtMigrationDir = ''/app/dist/migrations'',
     migrationContent = ''// Put your imports here'',
     rootDir = ''/app'',
     backUpOptions = demoOptions,
     existsSync = (\<lambda>path. path \<in> set [''/app/dist/migrations/users_05-07-2024_030405.js'',
        ''/app/dist/migrations/orders_05-08-2024_010101.js'',
        ''/app/dist/migrations/audit_05-09-2024_120000.js'',
        ''/app/dist/migrations/tags_05-10-2024_120000.js'']),
     importModule = demoModules,
     spawn = (\<lambda>command args.
        if command = ''sh'' \<and> args = [''-c'',
             ''mongodump -o /app/backup/db_05-07-2024_030405 --uri=mongodb://127.0.0.1:27017/app'']
        then [CloseEvent (Some 1)] else [CloseEvent (Some 0)]),
     pathJoin = (\<lambda>a b. a @ ''/'' @ b),
     clock = (\<lambda>n. instant)\<rparr>"

text \<open>The world with the given files in the migrations directory and the given names ledgered.\<close>

definition demoWorld :: "string list \<Rightarrow> string list \<Rightarrow> string list world" where
  "demoWorld names migrated =
     \<lparr>migrationsDir = Some (map (\<lambda>n. (n, ''// Put your imports here'')) names),
      ledger = map (\<lambda>n. \<lparr>filename = n, dateMigrated = ''2024-05-01T00:00:00.000Z''\<rparr>) migrated,
      store = [], printed = [], ticks = 0, calls = [], finds = 0\<rparr>"

text \<open>
  The world where the migrations directory does not exist, as where the compiled files
  alone are installed, with the given names ledgered; and that world with an empty ledger.
\<close>

definition unlistedWorld :: "string list \<Rightarrow> string list world" where
  "unlistedWorld migrated =
     \<lparr>migrationsDir = None,
      ledger = map (\<lambda>n. \<lparr>filename = n, dateMigrated = ''2024-05-01T00:00:00.000Z''\<rparr>) migrated,
      store = [], printed = [], ticks = 0, calls = [], finds = 0\<rparr>"

definition bareWorld :: "string list world" where
  "bareWorld = unlistedWorld []"

section \<open>The order on strings\<close>

lemma lessString_irrefl: "\<not> lessString a a"
  by (induction a) auto

lemma lessString_trans: "lessString a b \<Longrightarrow> lessString b c \<Longrightarrow> lessString a c"
proof (induction a b arbitrary: c rule: lessString.induct)
  case (2 y ys)
  then show ?case by (cases c) auto
next
  case (4 x xs y ys)
  then show ?case by (cases c) auto
qed auto

lemma lessString_total: "lessString a b \<or> a = b \<or> lessString b a"
proof (induction a b rule: lessString.induct)
  case (4 x xs y ys)
  have "(of_char x :: nat) < of_char y \<or> x = y \<or> (of_char y :: nat) < of_char x"
    using of_char_eq_iff [of x y, where ?'a = nat] by linarith
  with 4 show ?case by auto
qed auto

lemma lessString_asym: "lessString a b \<Longrightarrow> \<not> lessString b a"
  using lessString_trans lessString_irrefl by blast

lemma not_less_trans: "\<not> lessString b a \<Longrightarrow> \<not> lessString c b \<Longrightarrow> \<not> lessString c a"
  using lessString_total [of a b] lessString_total [of b c] lessString_trans by blast

section \<open>The sort key\<close>

lemma split_not_Nil: "split sep s \<noteq> []"
  by (induction s) (auto split: list.splits)

lemma join_split: "join sep (split sep s) = s"
proof (induction s)
  case Nil
  show ?case by simp
next
  case (Cons c cs)
  obtain p ps where ps: "split sep cs = p # ps"
    using split_not_Nil [of sep cs] by (cases "split sep cs") auto
  show ?case
  proof (cases "c = sep")
    case True
    with Cons ps show ?thesis by simp
  next
    case False
    with Cons ps show ?thesis by (cases ps) auto
  qed
qed

text \<open>Dropping the first segment of the split and joining the rest again is cutting the name after its first underscore.\<close>

lemma filePart_suffix: "filePart name = suffixAfterFirstUnderscore name"
proof (induction name)
  case Nil
  show ?case by (simp add: filePart_def suffixAfterFirstUnderscore_def)
next
  case (Cons c cs)
  obtain p ps where ps: "split CHR ''_'' cs = p # ps"
    using split_not_Nil [of "CHR ''_''" cs] by (cases "split CHR ''_'' cs") auto
  show ?case
  proof (cases "c = CHR ''_''")
    case True
    then show ?thesis
      using join_split [of "CHR ''_''" cs]
      by (simp add: filePart_def suffixAfterFirstUnderscore_def)
  next
    case False
    with Cons ps show ?thesis
      by (simp add: filePart_def suffixAfterFirstUnderscore_def)
  qed
qed

lemma compareFiles_le: "compareFiles f g \<le> 0 \<longleftrightarrow> \<not> lessString (filePart g) (filePart f)"
  using lessString_total [of "filePart f" "filePart g"] lessString_asym [of "filePart f" "filePart g"]
    lessString_irrefl [of "filePart f"]
  by (auto simp: compareFiles_def Let_def)

lemma compareFiles_zero: "compareFiles f g = 0 \<longleftrightarrow> filePart f = filePart g"
  by (simp add: compareFiles_def Let_def)

lemma compareFiles_neg: "compareFiles f g < 0 \<longleftrightarrow> lessString (filePart f) (filePart g)"
  using lessString_irrefl [of "filePart f"] by (auto simp: compareFiles_def Let_def)

lemma compareFiles_pos: "compareFiles f g > 0 \<longleftrightarrow> lessString (filePart g) (filePart f)"
  using lessString_total [of "filePart f" "filePart g"] lessString_asym [of "filePart f" "filePart g"]
    lessString_irrefl [of "filePart f"]
  by (auto simp: compareFiles_def Let_def)

section \<open>Sorting\<close>

lemma mset_insertFile: "mset (insertFile f fs) = add_mset f (mset fs)"
  by (induction fs) auto

lemma mset_sortFiles: "mset (sortFiles fs) = mset fs"
  by (induction fs) (auto simp: mset_insertFile)

lemma set_insertFile: "set (insertFile f fs) = insert f (set fs)"
  by (induction fs) auto

lemma set_sortFiles: "set (sortFiles fs) = set fs"
  by (induction fs) (auto simp: set_insertFile)

lemma sorted_insertFile:
  "sorted_wrt (\<lambda>f g. \<not> lessString (filePart g) (filePart f)) fs \<Longrightarrow>
   sorted_wrt (\<lambda>f g. \<not> lessString (filePart g) (filePart f)) (insertFile f fs)"
proof (induction fs)
  case Nil
  show ?case by simp
next
  case (Cons g gs)
  show ?case
  proof (cases "compareFiles f g \<le> 0")
    case True
    then have fg: "\<not> lessString (filePart g) (filePart f)" by (simp add: compareFiles_le)
    have "\<forall>h\<in>set gs. \<not> lessString (filePart h) (filePart f)"
      using Cons.prems fg not_less_trans by auto
    with True fg Cons.prems show ?thesis by simp
  next
    case False
    then have gf: "\<not> lessString (filePart f) (filePart g)"
      using lessString_asym by (auto simp: compareFiles_le)
    with False Cons show ?thesis by (auto simp: set_insertFile)
  qed
qed

lemma sorted_sortFiles:
  "sorted_wrt (\<lambda>f g. \<not> lessString (filePart g) (filePart f)) (sortFiles fs)"
  by (induction fs) (auto intro: sorted_insertFile)

text \<open>Files with equal keys stay in the order of the listing.\<close>

lemma filter_insertFile:
  "filter (\<lambda>g. filePart g = k) (insertFile f fs)
     = (if filePart f = k then f # filter (\<lambda>g. filePart g = k) fs
        else filter (\<lambda>g. filePart g = k) fs)"
proof (induction fs)
  case Nil
  show ?case by simp
next
  case (Cons g gs)
  show ?case
  proof (cases "compareFiles f g \<le> 0")
    case True
    then show ?thesis by simp
  next
    case False
    then have "lessString (filePart g) (filePart f)" by (simp add: compareFiles_le)
    then have "filePart g \<noteq> filePart f" using lessString_irrefl by auto
    with False Cons show ?thesis by auto
  qed
qed

lemma sortFiles_stable:
  "filter (\<lambda>g. filePart g = k) (sortFiles fs) = filter (\<lambda>g. filePart g = k) fs"
  by (induction fs) (simp_all add: filter_insertFile)

text \<open>
  Claim C2. \<open>sortFiles\<close> rearranges the pending file names (nothing is lost or added) so
  that they ascend by the part of the name after its first underscore, compared as
  strings: no name is followed by one with a smaller suffix. The key the code computes
  (split at underscores, drop the first segment, join with underscores) is that suffix,
  and the comparison gives 0 exactly when the two suffixes are equal, a negative number
  exactly when the first suffix is the smaller string, a positive one exactly when it is
  the larger: nothing else of the name is looked at.
\<close>

theorem sortFiles_ascending_by_suffix:
  "mset (sortFiles files) = mset files
   \<and> sorted_wrt (\<lambda>f g. \<not> lessString (suffixAfterFirstUnderscore g) (suffixAfterFirstUnderscore f))
        (sortFiles files)
   \<and> filePart f = suffixAfterFirstUnderscore f
   \<and> (compareFiles f g = 0 \<longleftrightarrow> suffixAfterFirstUnderscore f = suffixAfterFirstUnderscore g)
   \<and> (compareFiles f g < 0 \<longleftrightarrow>
        lessString (suffixAfterFirstUnderscore f) (suffixAfterFirstUnderscore g))
   \<and> (compareFiles f g > 0 \<longleftrightarrow>
        lessString (suffixAfterFirstUnderscore g) (suffixAfterFirstUnderscore f))"
  using mset_sortFiles [of files] sorted_sortFiles [of files] compareFiles_zero [of f g]
    compareFiles_neg [of f g] compareFiles_pos [of f g]
  by (simp add: filePart_suffix)

text \<open>
  Three files of the installation and a pair of names that differ before the underscore only.
\<close>

theorem sortFiles_ascending_by_suffix_witness:
  "mset (sortFiles [tagsFile, usersFile, ordersFile]) = mset [tagsFile, usersFile, ordersFile]
   \<and> filePart usersFile = ''05-07-2024_030405.ts''
   \<and> compareFiles ''users_05-07-2024_030405.ts'' ''people_05-07-2024_030405.ts'' = 0
   \<and> compareFiles usersFile ordersFile < 0"
proof -
  have s: "suffixAfterFirstUnderscore usersFile = ''05-07-2024_030405.ts''"
    "suffixAfterFirstUnderscore ''users_05-07-2024_030405.ts'' = ''05-07-2024_030405.ts''"
    "suffixAfterFirstUnderscore ''people_05-07-2024_030405.ts'' = ''05-07-2024_030405.ts''"
    "suffixAfterFirstUnderscore ordersFile = ''05-08-2024_010101.ts''"
    by (simp_all add: suffixAfterFirstUnderscore_def usersFile_def ordersFile_def)
  have l: "lessString ''05-07-2024_030405.ts'' ''05-08-2024_010101.ts''" by simp
  from sortFiles_ascending_by_suffix [of "[tagsFile, usersFile, ordersFile]" usersFile ordersFile]
    sortFiles_ascending_by_suffix [of "[]" "''users_05-07-2024_030405.ts''"
      "''people_05-07-2024_030405.ts''"] s l
  show ?thesis by simp
qed

section \<open>The identifier generator at a fixed instant\<close>

text \<open>
  Claim C7, as the spec states it: the name \<open>My Migration\<close> with extension \<open>ts\<close> at
  2024-05-07 03:04:05 would give \<open>my-migration_05-07-2024_030405.ts\<close>. It does not: the
  space of the name is kept, only underscores become hyphens.
\<close>

theorem appendTimestamp_hyphenated_counterexample:
  "appendTimestampToFilename instant ''My Migration'' (Some ''ts'')
     \<noteq> ''my-migration_05-07-2024_030405.ts''"
  by code_simp

text \<open>
  Claim C7, amended: at that instant the name \<open>My Migration\<close> with extension \<open>ts\<close>
  gives \<open>my migration_05-07-2024_030405.ts\<close> (trimmed, lower case, the space kept, month,
  day, hour, minute and second padded to two digits), and it is the name
  \<open>My_Migration\<close> that gives \<open>my-migration_05-07-2024_030405.ts\<close>.
\<close>

theorem appendTimestamp_at_instant:
  "appendTimestampToFilename instant ''My Migration'' (Some ''ts'')
     = ''my migration_05-07-2024_030405.ts''
   \<and> appendTimestampToFilename instant ''My_Migration'' (Some ''ts'')
     = ''my-migration_05-07-2024_030405.ts''"
  by code_simp

section \<open>Effects on the world\<close>

lemma debug_fields [simp]:
  "calls (debug msg w) = calls w"
  "ledger (debug msg w) = ledger w"
  "store (debug msg w) = store w"
  "migrationsDir (debug msg w) = migrationsDir w"
  "ticks (debug msg w) = ticks w"
  "finds (debug msg w) = finds w"
  "printed (debug msg w) = printed w @ [Debug msg]"
  by (simp_all add: debug_def)

lemma consoleLog_fields [simp]:
  "calls (consoleLog a b w) = calls w"
  "ledger (consoleLog a b w) = ledger w"
  "store (consoleLog a b w) = store w"
  "migrationsDir (consoleLog a b w) = migrationsDir w"
  "ticks (consoleLog a b w) = ticks w"
  "finds (consoleLog a b w) = finds w"
  "printed (consoleLog a b w) = printed w @ [ConsoleLog a b]"
  by (simp_all add: consoleLog_def)

lemma create_fields [simp]:
  "calls (migrationRepo_create sv f w) = calls w"
  "ledger (migrationRepo_create sv f w) =
     ledger w @ [\<lparr>filename = f, dateMigrated = toISOString (clock sv (ticks w))\<rparr>]"
  "store (migrationRepo_create sv f w) = store w"
  "migrationsDir (migrationRepo_create sv f w) = migrationsDir w"
  "ticks (migrationRepo_create sv f w) = Suc (ticks w)"
  "finds (migrationRepo_create sv f w) = finds w"
  "printed (migrationRepo_create sv f w) = printed w"
  by (simp_all add: migrationRepo_create_def newDate_def)

text \<open>Reading the ledger gives its entries and changes the count of reads alone.\<close>

lemma find_fields [simp]:
  "fst (migrationRepo_find w) = ledger w"
  "calls (snd (migrationRepo_find w)) = calls w"
  "ledger (snd (migrationRepo_find w)) = ledger w"
  "store (snd (migrationRepo_find w)) = store w"
  "migrationsDir (snd (migrationRepo_find w)) = migrationsDir w"
  "ticks (snd (migrationRepo_find w)) = ticks w"
  "finds (snd (migrationRepo_find w)) = Suc (finds w)"
  "printed (snd (migrationRepo_find w)) = printed w"
  by (simp_all add: migrationRepo_find_def)

lemma invoke_eq:
  "invoke d f fn r w =
     (fst (fn r (store w)),
      w\<lparr>store := snd (fn r (store w)), calls := calls w @ [(d, f, fst (fn r (store w)))]\<rparr>)"
  by (simp add: invoke_def split_beta)

section \<open>The loop\<close>

text \<open>The loop on a list put together from two, and where a loop that ends early stopped.\<close>

lemma forOf_append:
  "forOf body (xs @ ys) w =
     (case forOf body xs w of (Next, w1) \<Rightarrow> forOf body ys w1 | (fl, w1) \<Rightarrow> (fl, w1))"
  by (induction xs arbitrary: w) (auto split: prod.splits flow.splits)

lemma forOf_stops:
  assumes "forOf body xs w = (fl, w')" and "fl \<noteq> Next"
  shows "\<exists>pre x post w1. xs = pre @ x # post \<and> forOf body pre w = (Next, w1) \<and> body x w1 = (fl, w')"
  using assms
proof (induction xs arbitrary: w)
  case Nil
  then show ?case by simp
next
  case (Cons y ys)
  obtain g v where b: "body y w = (g, v)" by (cases "body y w")
  show ?case
  proof (cases "g = Next")
    case True
    with Cons.prems b have "forOf body ys v = (fl, w')" by simp
    from Cons.IH [OF this Cons.prems(2)] obtain pre x post w1
      where "ys = pre @ x # post" "forOf body pre v = (Next, w1)" "body x w1 = (fl, w')"
      by blast
    with True b have "y # ys = (y # pre) @ x # post \<and> forOf body (y # pre) w = (Next, w1)
        \<and> body x w1 = (fl, w')" by simp
    then show ?thesis by blast
  next
    case False
    with Cons.prems b have "(g, v) = (fl, w')" by (cases g) auto
    with b have "y # ys = [] @ y # ys \<and> forOf body [] w = (Next, w) \<and> body y w = (fl, w')"
      by simp
    then show ?thesis by blast
  qed
qed

section \<open>The forward run\<close>

text \<open>One iteration of the forward run: going on to the next file, or ending the loop.\<close>

lemma upBody_Next:
  assumes "upBody sv r t f w = (Next, w')"
  shows "calls w' = calls w @ [(''up'', f, Resolved ())]"
    and "ledger w' = ledger w @
           (if t then [] else [\<lparr>filename = f, dateMigrated = toISOString (clock sv (ticks w))\<rparr>])"
    and "migrationsDir w' = migrationsDir w"
    and "\<exists>m fn. importModule sv (builtMigrationDir sv @ ''/'' @ stripTs f) = Inr m \<and> up m = Some fn
           \<and> fst (fn r (store w)) = Resolved () \<and> snd (fn r (store w)) = store w'"
  using assms
  by (auto simp: upBody_def invoke_eq split: sum.splits option.splits promise.splits if_splits)

lemma upBody_stops:
  assumes "upBody sv r t f w = (fl, w')" and "fl \<noteq> Next"
  shows "ledger w' = ledger w" and "migrationsDir w' = migrationsDir w"
    and "fl = Return \<Longrightarrow> w' = debug ''migration up function not found'' w
           \<and> (\<exists>m. importModule sv (builtMigrationDir sv @ ''/'' @ stripTs f) = Inr m \<and> up m = None)"
    and "fl = Stall \<Longrightarrow> calls w' = calls w @ [(''up'', f, Pending)]"
    and "fl = Throw e \<Longrightarrow> calls w' = calls w @ [(''up'', f, Rejected e)]
           \<or> (calls w' = calls w \<and> importModule sv (builtMigrationDir sv @ ''/'' @ stripTs f) = Inl e)"
    and "\<exists>tailc. calls w' = calls w @ tailc \<and> (\<forall>c\<in>set tailc. \<exists>q. c = (''up'', f, q) \<and> q \<noteq> Resolved ())"
  using assms
  by (auto simp: upBody_def invoke_eq split: sum.splits option.splits promise.splits if_splits)

text \<open>The loop run to its end, and the loop however it ended.\<close>

lemma upLoop_Next:
  assumes "forOf (upBody sv r t) fs w = (Next, w')"
  shows "calls w' = calls w @ map (\<lambda>g. (''up'', g, Resolved ())) fs
    \<and> (\<exists>news. ledger w' = ledger w @ news \<and> map filename news = (if t then [] else fs))
    \<and> migrationsDir w' = migrationsDir w"
  using assms
proof (induction fs arbitrary: w)
  case Nil
  then show ?case by simp
next
  case (Cons g gs)
  obtain fl v where b: "upBody sv r t g w = (fl, v)" by (cases "upBody sv r t g w")
  with Cons.prems have fl: "fl = Next" by (cases fl) auto
  with Cons.prems b have rest: "forOf (upBody sv r t) gs v = (Next, w')" by simp
  from Cons.IH [OF rest] upBody_Next(1-3) [OF b [unfolded fl]]
  show ?case by auto
qed

lemma upLoop_outcome:
  assumes "forOf (upBody sv r t) fs w = (fl, w')"
  shows "\<exists>pre post tailc news.
      fs = pre @ post
    \<and> calls w' = calls w @ map (\<lambda>g. (''up'', g, Resolved ())) pre @ tailc
    \<and> ledger w' = ledger w @ news \<and> map filename news = (if t then [] else pre)
    \<and> migrationsDir w' = migrationsDir w
    \<and> (fl = Next \<and> post = [] \<and> tailc = []
       \<or> (\<exists>f rest. post = f # rest
            \<and> (fl = Return \<and> tailc = []
                 \<and> (\<exists>m. importModule sv (builtMigrationDir sv @ ''/'' @ stripTs f) = Inr m
                        \<and> up m = None)
               \<or> fl = Stall \<and> tailc = [(''up'', f, Pending)]
               \<or> (\<exists>e. fl = Throw e
                    \<and> (tailc = [(''up'', f, Rejected e)]
                       \<or> tailc = []
                         \<and> importModule sv (builtMigrationDir sv @ ''/'' @ stripTs f) = Inl e)))))"
proof (cases "fl = Next")
  case True
  from upLoop_Next [OF assms [unfolded True]] obtain news where
    "calls w' = calls w @ map (\<lambda>g. (''up'', g, Resolved ())) fs @ []"
    "ledger w' = ledger w @ news" "map filename news = (if t then [] else fs)"
    "migrationsDir w' = migrationsDir w" by auto
  with True have "fs = fs @ []
    \<and> calls w' = calls w @ map (\<lambda>g. (''up'', g, Resolved ())) fs @ []
    \<and> ledger w' = ledger w @ news \<and> map filename news = (if t then [] else fs)
    \<and> migrationsDir w' = migrationsDir w \<and> fl = Next" by simp
  then show ?thesis by blast
next
  case False
  from forOf_stops [OF assms False] obtain pre f rest w1 where
    fs: "fs = pre @ f # rest" and pre: "forOf (upBody sv r t) pre w = (Next, w1)"
    and body: "upBody sv r t f w1 = (fl, w')" by blast
  from upLoop_Next [OF pre] obtain news where
    c1: "calls w1 = calls w @ map (\<lambda>g. (''up'', g, Resolved ())) pre"
    and l1: "ledger w1 = ledger w @ news" "map filename news = (if t then [] else pre)"
    and d1: "migrationsDir w1 = migrationsDir w" by auto
  note st = upBody_stops [OF body False]
  have common: "ledger w' = ledger w @ news" "migrationsDir w' = migrationsDir w"
    using st(1,2) l1 d1 by simp_all
  consider (ret) "fl = Return" | (stall) "fl = Stall" | (thr) e where "fl = Throw e"
    using False by (cases fl) auto
  then show ?thesis
  proof cases
    case ret
    from st(3) [OF ret] c1 have "calls w' = calls w @ map (\<lambda>g. (''up'', g, Resolved ())) pre @ []"
      and "\<exists>m. importModule sv (builtMigrationDir sv @ ''/'' @ stripTs f) = Inr m \<and> up m = None"
      by auto
    with fs common l1(2) ret show ?thesis by blast
  next
    case stall
    from st(4) [OF stall] c1
    have "calls w' = calls w @ map (\<lambda>g. (''up'', g, Resolved ())) pre @ [(''up'', f, Pending)]"
      by simp
    with fs common l1(2) stall show ?thesis by blast
  next
    case thr
    from st(5) [OF thr] c1
    have "calls w' = calls w @ map (\<lambda>g. (''up'', g, Resolved ())) pre @ [(''up'', f, Rejected e)]
       \<or> calls w' = calls w @ map (\<lambda>g. (''up'', g, Resolved ())) pre @ []
         \<and> importModule sv (builtMigrationDir sv @ ''/'' @ stripTs f) = Inl e"
      by auto
    with fs common l1(2) thr show ?thesis by blast
  qed
qed

lemma indexOf_absent: "indexOf xs x = - 1 \<longleftrightarrow> x \<notin> set xs"
proof (induction xs)
  case Nil
  show ?case by simp
next
  case (Cons y ys)
  have "0 \<le> indexOf ys x \<or> indexOf ys x = - 1"
    by (induction ys) (auto simp: Let_def)
  with Cons show ?case by (auto simp: Let_def)
qed

lemma toMigrateFiles_filter:
  "toMigrateFiles files names = filter (\<lambda>f. f \<notin> set names) files"
  by (simp add: toMigrateFiles_def indexOf_absent)

lemma executeMigration_up:
  assumes "migrationsDir w = Some entries"
  shows "executeMigration sv ''up'' r tok t w =
     (case forOf (upBody sv r t)
             (sortFiles (toMigrateFiles (map fst entries) (map filename (ledger w))))
             (if toMigrateFiles (map fst entries) (map filename (ledger w)) = []
              then debug ''No migrations to execute. Database is up to date''
                     (snd (migrationRepo_find w))
              else snd (migrationRepo_find w)) of
        (Next, w1) \<Rightarrow> (Resolved (), w1)
      | (Return, w1) \<Rightarrow> (Resolved (), w1)
      | (Throw e, w1) \<Rightarrow> (Rejected e, w1)
      | (Stall, w1) \<Rightarrow> (Pending, w1))"
  using assms by (simp add: executeMigration_def readDir_def Let_def migrationRepo_find_def)

text \<open>A forward run over files that all have a compiled counterpart whose \<open>up\<close> is fulfilled.\<close>

lemma upLoop_all:
  assumes "\<forall>f\<in>set fs. \<exists>m fn. importModule sv (builtMigrationDir sv @ ''/'' @ stripTs f) = Inr m
      \<and> up m = Some fn \<and> (\<forall>s. fst (fn r s) = Resolved ())"
  shows "fst (forOf (upBody sv r t) fs w) = Next"
  using assms
proof (induction fs arbitrary: w)
  case Nil
  show ?case by simp
next
  case (Cons g gs)
  from Cons.prems obtain m fn where
    g: "importModule sv (builtMigrationDir sv @ ''/'' @ stripTs g) = Inr m" "up m = Some fn"
      "\<forall>s. fst (fn r s) = Resolved ()" by auto
  obtain v where b: "upBody sv r t g w = (Next, v)"
    using g by (simp add: upBody_def invoke_eq)
  from Cons.prems have "\<forall>f\<in>set gs. \<exists>m fn.
      importModule sv (builtMigrationDir sv @ ''/'' @ stripTs f) = Inr m
      \<and> up m = Some fn \<and> (\<forall>s. fst (fn r s) = Resolved ())" by simp
  from Cons.IH [OF this, of v] b show ?case by simp
qed

text \<open>The loop of the forward run neither reads nor changes the count of ledger reads.\<close>

lemma upBody_finds:
  "upBody sv r t f (w\<lparr>finds := n\<rparr>)
     = (fst (upBody sv r t f w), (snd (upBody sv r t f w))\<lparr>finds := n\<rparr>)"
  by (simp add: upBody_def invoke_eq debug_def migrationRepo_create_def newDate_def
      split: sum.splits option.splits promise.splits)

lemma upLoop_finds:
  "forOf (upBody sv r t) fs (w\<lparr>finds := n\<rparr>)
     = (fst (forOf (upBody sv r t) fs w), (snd (forOf (upBody sv r t) fs w))\<lparr>finds := n\<rparr>)"
proof (induction fs arbitrary: w)
  case Nil
  show ?case by simp
next
  case (Cons g gs)
  obtain fl v where b: "upBody sv r t g w = (fl, v)" by (cases "upBody sv r t g w")
  with upBody_finds [of sv r t g n w]
  have b': "upBody sv r t g (w\<lparr>finds := n\<rparr>) = (fl, v\<lparr>finds := n\<rparr>)" by simp
  show ?case
  proof (cases "fl = Next")
    case True
    with b b' Cons.IH [of v] show ?thesis by simp
  next
    case False
    with b b' show ?thesis by (cases fl) simp_all
  qed
qed

section \<open>The concrete installation, evaluated\<close>

lemma demo_strip:
  "stripTs ''users_05-07-2024_030405.ts'' = ''users_05-07-2024_030405''"
  "stripTs ''orders_05-08-2024_010101.ts'' = ''orders_05-08-2024_010101''"
  "stripTs ''audit_05-09-2024_120000.ts'' = ''audit_05-09-2024_120000''"
  "stripTs ''tags_05-10-2024_120000.ts'' = ''tags_05-10-2024_120000''"
  by code_simp+

lemma demo_sorted:
  "sortFiles [''tags_05-10-2024_120000.ts'', ''users_05-07-2024_030405.ts'', ''orders_05-08-2024_010101.ts'']
   = [''users_05-07-2024_030405.ts'', ''orders_05-08-2024_010101.ts'', ''tags_05-10-2024_120000.ts'']"
  "sortFiles [''tags_05-10-2024_120000.ts'', ''audit_05-09-2024_120000.ts'', ''users_05-07-2024_030405.ts'']
   = [''users_05-07-2024_030405.ts'', ''audit_05-09-2024_120000.ts'', ''tags_05-10-2024_120000.ts'']"
  "sortFiles [''tags_05-10-2024_120000.ts'', ''users_05-07-2024_030405.ts'']
   = [''users_05-07-2024_030405.ts'', ''tags_05-10-2024_120000.ts'']"
  by code_simp+

lemmas demo_eval = executeMigration_def readDir_def migrationRepo_find_def demoWorld_def toMigrateFiles_def filteredFiles_def
  demo_sorted demo_strip upBody_def downBody_def demo_def demoModules_def invoke_eq writes_def
  failWith_def usersFile_def ordersFile_def auditFile_def tagsFile_def migrate_def

section \<open>The pending set\<close>

text \<open>
  Claim C1. Let the migrations directory list the entries \<open>entries\<close>. The pending files
  of a forward run are the listed names that are the \<open>filename\<close> of no ledger entry, by
  equality of the names: as a list, the listing filtered (order and repetitions kept), and
  as a set, the listing minus the ledgered names. The run works through the sorted pending
  files and through no other file: the files whose \<open>up\<close> it calls are the first so many
  of them, each call but the last fulfilled, and it stops before the end of them only at a
  file that cannot be imported (the run is rejected with that error), that exports no
  \<open>up\<close> (the run is fulfilled), or whose \<open>up\<close> is not fulfilled (the run settles as that
  call did). So where every pending file has a compiled counterpart whose \<open>up\<close> is
  fulfilled, the run is fulfilled, has called the \<open>up\<close> of every pending file in sorted
  order, and has ledgered exactly these files (none in a test run). When every listed name
  is ledgered, nothing is pending and the run is fulfilled after reading the ledger once
  and printing \<open>No migrations to execute. Database is up to date\<close>: the world is otherwise
  unchanged, so no unit was called and no entry written.
\<close>

theorem forward_run_pending_set:
  assumes "migrationsDir w = Some entries"
  shows "toMigrateFiles (map fst entries) (map filename (ledger w))
           = filter (\<lambda>f. f \<notin> filename ` set (ledger w)) (map fst entries)
    \<and> set (toMigrateFiles (map fst entries) (map filename (ledger w)))
           = fst ` set entries - filename ` set (ledger w)
    \<and> (\<exists>cs later. calls (snd (executeMigration sv ''up'' repositories token isTest w)) = calls w @ cs
          \<and> sortFiles (toMigrateFiles (map fst entries) (map filename (ledger w)))
               = map (fst \<circ> snd) cs @ later)
    \<and> (\<exists>pre post tailc.
          sortFiles (toMigrateFiles (map fst entries) (map filename (ledger w))) = pre @ post
        \<and> calls (snd (executeMigration sv ''up'' repositories token isTest w))
            = calls w @ map (\<lambda>g. (''up'', g, Resolved ())) pre @ tailc
        \<and> (post = [] \<and> tailc = []
             \<and> fst (executeMigration sv ''up'' repositories token isTest w) = Resolved ()
           \<or> (\<exists>f rest. post = f # rest
                \<and> ((\<exists>e. importModule sv (builtMigrationDir sv @ ''/'' @ stripTs f) = Inl e
                       \<and> tailc = []
                       \<and> fst (executeMigration sv ''up'' repositories token isTest w) = Rejected e)
                   \<or> (\<exists>m. importModule sv (builtMigrationDir sv @ ''/'' @ stripTs f) = Inr m
                         \<and> up m = None \<and> tailc = []
                         \<and> fst (executeMigration sv ''up'' repositories token isTest w) = Resolved ())
                   \<or> fst (executeMigration sv ''up'' repositories token isTest w) \<noteq> Resolved ()
                     \<and> tailc = [(''up'', f,
                          fst (executeMigration sv ''up'' repositories token isTest w))]))))
    \<and> ((\<forall>f\<in>set (toMigrateFiles (map fst entries) (map filename (ledger w))).
           \<exists>m fn. importModule sv (builtMigrationDir sv @ ''/'' @ stripTs f) = Inr m
             \<and> up m = Some fn \<and> (\<forall>s. fst (fn repositories s) = Resolved ())) \<longrightarrow>
          fst (executeMigration sv ''up'' repositories token isTest w) = Resolved ()
        \<and> calls (snd (executeMigration sv ''up'' repositories token isTest w))
            = calls w @ map (\<lambda>g. (''up'', g, Resolved ()))
                (sortFiles (toMigrateFiles (map fst entries) (map filename (ledger w))))
        \<and> (\<exists>news. ledger (snd (executeMigration sv ''up'' repositories token isTest w))
                      = ledger w @ news
              \<and> map filename news = (if isTest then []
                  else sortFiles (toMigrateFiles (map fst entries) (map filename (ledger w))))))
    \<and> (fst ` set entries \<subseteq> filename ` set (ledger w) \<longrightarrow>
          toMigrateFiles (map fst entries) (map filename (ledger w)) = []
        \<and> executeMigration sv ''up'' repositories token isTest w
            = (Resolved (),
               debug ''No migrations to execute. Database is up to date''
                 (snd (migrationRepo_find w)))
        \<and> calls (snd (executeMigration sv ''up'' repositories token isTest w)) = calls w
        \<and> ledger (snd (executeMigration sv ''up'' repositories token isTest w)) = ledger w)"
proof -
  let ?pending = "toMigrateFiles (map fst entries) (map filename (ledger w))"
  let ?w0 = "if ?pending = []
    then debug ''No migrations to execute. Database is up to date'' (snd (migrationRepo_find w))
    else snd (migrationRepo_find w)"
  let ?run = "executeMigration sv ''up'' repositories token isTest w"
  have a: "?pending = filter (\<lambda>f. f \<notin> filename ` set (ledger w)) (map fst entries)"
    by (simp add: toMigrateFiles_filter)
  have b: "set ?pending = fst ` set entries - filename ` set (ledger w)"
    by (auto simp: toMigrateFiles_filter)
  obtain fl w' where run: "forOf (upBody sv repositories isTest) (sortFiles ?pending) ?w0 = (fl, w')"
    by (cases "forOf (upBody sv repositories isTest) (sortFiles ?pending) ?w0")
  have res: "snd ?run = w'"
    using run by (simp add: executeMigration_up [OF assms] split: flow.splits)
  have p: "fst ?run = (case fl of Next \<Rightarrow> Resolved () | Return \<Rightarrow> Resolved ()
      | Throw e \<Rightarrow> Rejected e | Stall \<Rightarrow> Pending)"
    using run by (simp add: executeMigration_up [OF assms] split: flow.splits)
  have c0: "calls ?w0 = calls w" and l0: "ledger ?w0 = ledger w" by simp_all
  from upLoop_outcome [OF run] obtain pre post tailc where
    sp: "sortFiles ?pending = pre @ post"
    and cs: "calls w' = calls w @ map (\<lambda>g. (''up'', g, Resolved ())) pre @ tailc"
    and alt: "fl = Next \<and> post = [] \<and> tailc = []
       \<or> (\<exists>f rest. post = f # rest
            \<and> (fl = Return \<and> tailc = []
                 \<and> (\<exists>m. importModule sv (builtMigrationDir sv @ ''/'' @ stripTs f) = Inr m
                        \<and> up m = None)
               \<or> fl = Stall \<and> tailc = [(''up'', f, Pending)]
               \<or> (\<exists>e. fl = Throw e
                    \<and> (tailc = [(''up'', f, Rejected e)]
                       \<or> tailc = []
                         \<and> importModule sv (builtMigrationDir sv @ ''/'' @ stripTs f) = Inl e))))"
    unfolding c0 l0 by blast
  from alt have tl: "tailc = [] \<or> (\<exists>f rest q. post = f # rest \<and> tailc = [(''up'', f, q)])"
    by auto
  have c: "\<exists>cs later. calls w' = calls w @ cs \<and> sortFiles ?pending = map (fst \<circ> snd) cs @ later"
  proof -
    from tl show ?thesis
    proof
      assume "tailc = []"
      with cs sp have "calls w' = calls w @ map (\<lambda>g. (''up'', g, Resolved ())) pre
        \<and> sortFiles ?pending = map (fst \<circ> snd) (map (\<lambda>g. (''up'', g, Resolved ())) pre) @ post"
        by (simp add: comp_def)
      then show ?thesis by blast
    next
      assume "\<exists>f rest q. post = f # rest \<and> tailc = [(''up'', f, q)]"
      then obtain f rest q where "post = f # rest" "tailc = [(''up'', f, q)]" by blast
      with cs sp have "calls w' = calls w @ (map (\<lambda>g. (''up'', g, Resolved ())) pre @ [(''up'', f, q)])
        \<and> sortFiles ?pending
            = map (fst \<circ> snd) (map (\<lambda>g. (''up'', g, Resolved ())) pre @ [(''up'', f, q)]) @ rest"
        by (simp add: comp_def)
      then show ?thesis by blast
    qed
  qed
  have stop: "post = [] \<and> tailc = [] \<and> fst ?run = Resolved ()
           \<or> (\<exists>f rest. post = f # rest
                \<and> ((\<exists>e. importModule sv (builtMigrationDir sv @ ''/'' @ stripTs f) = Inl e
                       \<and> tailc = [] \<and> fst ?run = Rejected e)
                   \<or> (\<exists>m. importModule sv (builtMigrationDir sv @ ''/'' @ stripTs f) = Inr m
                         \<and> up m = None \<and> tailc = [] \<and> fst ?run = Resolved ())
                   \<or> fst ?run \<noteq> Resolved () \<and> tailc = [(''up'', f, fst ?run)]))"
  proof (cases fl)
    case Next
    with alt p show ?thesis by auto
  next
    case Return
    with alt p show ?thesis by auto
  next
    case (Throw e)
    with alt p show ?thesis by auto
  next
    case Stall
    with alt p show ?thesis by auto
  qed
  have d: "\<exists>pre post tailc. sortFiles ?pending = pre @ post
        \<and> calls w' = calls w @ map (\<lambda>g. (''up'', g, Resolved ())) pre @ tailc
        \<and> (post = [] \<and> tailc = [] \<and> fst ?run = Resolved ()
           \<or> (\<exists>f rest. post = f # rest
                \<and> ((\<exists>e. importModule sv (builtMigrationDir sv @ ''/'' @ stripTs f) = Inl e
                       \<and> tailc = [] \<and> fst ?run = Rejected e)
                   \<or> (\<exists>m. importModule sv (builtMigrationDir sv @ ''/'' @ stripTs f) = Inr m
                         \<and> up m = None \<and> tailc = [] \<and> fst ?run = Resolved ())
                   \<or> fst ?run \<noteq> Resolved () \<and> tailc = [(''up'', f, fst ?run)])))"
    using sp cs stop by blast
  have e: "(\<forall>f\<in>set ?pending.
           \<exists>m fn. importModule sv (builtMigrationDir sv @ ''/'' @ stripTs f) = Inr m
             \<and> up m = Some fn \<and> (\<forall>s. fst (fn repositories s) = Resolved ())) \<longrightarrow>
          fst ?run = Resolved ()
        \<and> calls w' = calls w @ map (\<lambda>g. (''up'', g, Resolved ())) (sortFiles ?pending)
        \<and> (\<exists>news. ledger w' = ledger w @ news
              \<and> map filename news = (if isTest then [] else sortFiles ?pending))"
  proof
    assume "\<forall>f\<in>set ?pending.
           \<exists>m fn. importModule sv (builtMigrationDir sv @ ''/'' @ stripTs f) = Inr m
             \<and> up m = Some fn \<and> (\<forall>s. fst (fn repositories s) = Resolved ())"
    then have "\<forall>f\<in>set (sortFiles ?pending).
           \<exists>m fn. importModule sv (builtMigrationDir sv @ ''/'' @ stripTs f) = Inr m
             \<and> up m = Some fn \<and> (\<forall>s. fst (fn repositories s) = Resolved ())"
      by (simp only: set_sortFiles)
    from upLoop_all [OF this, of isTest ?w0] run have n: "fl = Next" by simp
    from upLoop_Next [OF run [unfolded n]] c0 l0 obtain news where
      "calls w' = calls w @ map (\<lambda>g. (''up'', g, Resolved ())) (sortFiles ?pending)"
      "ledger w' = ledger w @ news"
      "map filename news = (if isTest then [] else sortFiles ?pending)"
      by auto
    with n p show "fst ?run = Resolved ()
        \<and> calls w' = calls w @ map (\<lambda>g. (''up'', g, Resolved ())) (sortFiles ?pending)
        \<and> (\<exists>news. ledger w' = ledger w @ news
              \<and> map filename news = (if isTest then [] else sortFiles ?pending))"
      by auto
  qed
  have f: "fst ` set entries \<subseteq> filename ` set (ledger w) \<longrightarrow>
          ?pending = []
        \<and> ?run = (Resolved (),
               debug ''No migrations to execute. Database is up to date''
                 (snd (migrationRepo_find w)))
        \<and> calls (snd ?run) = calls w \<and> ledger (snd ?run) = ledger w"
  proof
    assume sub: "fst ` set entries \<subseteq> filename ` set (ledger w)"
    then have "fst ` set entries - filename ` set (ledger w) = {}" by blast
    with b have "set ?pending = {}" by simp
    then have e: "?pending = []" by (simp only: set_empty)
    then show "?pending = []
        \<and> ?run = (Resolved (),
               debug ''No migrations to execute. Database is up to date''
                 (snd (migrationRepo_find w)))
        \<and> calls (snd ?run) = calls w \<and> ledger (snd ?run) = ledger w"
      by (simp add: executeMigration_up [OF assms])
  qed
  from a b c d e f [unfolded res] show ?thesis unfolding res by blast
qed

text \<open>
  The installation with \<open>tags\<close>, \<open>users\<close> and \<open>orders\<close> listed and \<open>orders\<close>
  ledgered: \<open>users\<close> and \<open>tags\<close> are pending, both are run, in that order, and both are
  ledgered after \<open>orders\<close>. And the installation with the \<open>users\<close> file listed and
  ledgered: nothing is pending and the run reports that the database is up to date.
\<close>

theorem forward_run_pending_set_witness:
  "toMigrateFiles [tagsFile, usersFile, ordersFile] [ordersFile] = [tagsFile, usersFile]
   \<and> fst (executeMigration demo ''up'' None '''' False
        (demoWorld [tagsFile, usersFile, ordersFile] [ordersFile])) = Resolved ()
   \<and> calls (snd (executeMigration demo ''up'' None '''' False
        (demoWorld [tagsFile, usersFile, ordersFile] [ordersFile])))
      = [(''up'', usersFile, Resolved ()), (''up'', tagsFile, Resolved ())]
   \<and> map filename (ledger (snd (executeMigration demo ''up'' None '''' False
        (demoWorld [tagsFile, usersFile, ordersFile] [ordersFile]))))
      = [ordersFile, usersFile, tagsFile]
   \<and> toMigrateFiles [usersFile] [usersFile] = []
   \<and> executeMigration demo ''up'' None '''' False (demoWorld [usersFile] [usersFile])
     = (Resolved (), debug ''No migrations to execute. Database is up to date''
          (snd (migrationRepo_find (demoWorld [usersFile] [usersFile]))))"
proof -
  let ?w = "demoWorld [tagsFile, usersFile, ordersFile] [ordersFile]"
  let ?run = "executeMigration demo ''up'' None '''' False ?w"
  have dir: "migrationsDir ?w = Some (map (\<lambda>n. (n, ''// Put your imports here''))
      [tagsFile, usersFile, ordersFile])" by (simp add: demoWorld_def)
  have fsts: "map fst (map (\<lambda>n. (n, ''// Put your imports here'')) [tagsFile, usersFile, ordersFile])
      = [tagsFile, usersFile, ordersFile]" by simp
  have led: "map filename (ledger ?w) = [ordersFile]" by (simp add: demoWorld_def)
  have pend: "toMigrateFiles [tagsFile, usersFile, ordersFile] [ordersFile] = [tagsFile, usersFile]"
    by (simp add: toMigrateFiles_def usersFile_def ordersFile_def tagsFile_def)
  have srt: "sortFiles [tagsFile, usersFile] = [usersFile, tagsFile]"
    by (simp add: demo_sorted usersFile_def tagsFile_def del: sortFiles.simps)
  have ok: "\<forall>f\<in>set (toMigrateFiles
        (map fst (map (\<lambda>n. (n, ''// Put your imports here'')) [tagsFile, usersFile, ordersFile]))
        (map filename (ledger ?w))).
      \<exists>m fn. importModule demo (builtMigrationDir demo @ ''/'' @ stripTs f) = Inr m
        \<and> up m = Some fn \<and> (\<forall>s. fst (fn None s) = Resolved ())"
    unfolding fsts led pend by (simp add: demo_eval)
  from forward_run_pending_set [OF dir, of demo None "''''" False] ok
  have r: "fst ?run = Resolved ()"
    "calls (snd ?run) = calls ?w @ map (\<lambda>g. (''up'', g, Resolved ()))
       (sortFiles (toMigrateFiles
          (map fst (map (\<lambda>n. (n, ''// Put your imports here'')) [tagsFile, usersFile, ordersFile]))
          (map filename (ledger ?w))))"
    "\<exists>news. ledger (snd ?run) = ledger ?w @ news
       \<and> map filename news = (if False then [] else sortFiles (toMigrateFiles
          (map fst (map (\<lambda>n. (n, ''// Put your imports here'')) [tagsFile, usersFile, ordersFile]))
          (map filename (ledger ?w))))"
    by blast+
  from r(2) have r2: "calls (snd ?run) = [(''up'', usersFile, Resolved ()), (''up'', tagsFile, Resolved ())]"
    unfolding fsts led pend srt by (simp add: demoWorld_def)
  from r(3) obtain news where "ledger (snd ?run) = ledger ?w @ news"
    "map filename news = [usersFile, tagsFile]"
    unfolding fsts led pend srt by auto
  with led have r3: "map filename (ledger (snd ?run)) = [ordersFile, usersFile, tagsFile]" by simp
  have upToDate: "toMigrateFiles [usersFile] [usersFile] = []
   \<and> executeMigration demo ''up'' None '''' False (demoWorld [usersFile] [usersFile])
     = (Resolved (), debug ''No migrations to execute. Database is up to date''
          (snd (migrationRepo_find (demoWorld [usersFile] [usersFile]))))"
    using forward_run_pending_set [of "demoWorld [usersFile] [usersFile]"
      "[(usersFile, ''// Put your imports here'')]" demo None "''''" False]
    by (simp add: demoWorld_def)
  from pend r(1) r2 r3 upToDate show ?thesis by blast
qed

section \<open>A transform that fails\<close>

text \<open>
  Claim C3. In a forward run over a listed directory, let the call of the \<open>up\<close> of a file
  \<open>f\<close> be rejected with \<open>e\<close>. Then the run is rejected with \<open>e\<close>; \<open>f\<close> is a
  pending file; the calls of the run are the fulfilled calls of the pending files sorted before
  \<open>f\<close>, in order, and then the rejected call of \<open>f\<close>, so no later file was tried; and the
  ledger has grown by one entry for each of those earlier files, in order, and none for \<open>f\<close>
  (by nothing at all in a test run).
\<close>

theorem forward_failure_stops_run:
  assumes "migrationsDir w = Some entries"
    and "executeMigration sv ''up'' repositories token isTest w = (p, w')"
    and "calls w' = calls w @ cs"
    and "(''up'', f, Rejected e) \<in> set cs"
  shows "p = Rejected e
    \<and> (\<exists>pre post news.
          sortFiles (toMigrateFiles (map fst entries) (map filename (ledger w))) = pre @ f # post
        \<and> cs = map (\<lambda>g. (''up'', g, Resolved ())) pre @ [(''up'', f, Rejected e)]
        \<and> ledger w' = ledger w @ news
        \<and> map filename news = (if isTest then [] else pre))"
proof -
  let ?pending = "toMigrateFiles (map fst entries) (map filename (ledger w))"
  let ?w0 = "if ?pending = []
    then debug ''No migrations to execute. Database is up to date'' (snd (migrationRepo_find w))
    else snd (migrationRepo_find w)"
  obtain fl v where run: "forOf (upBody sv repositories isTest) (sortFiles ?pending) ?w0 = (fl, v)"
    by (cases "forOf (upBody sv repositories isTest) (sortFiles ?pending) ?w0")
  have v: "v = w'" and p: "p = (case fl of Next \<Rightarrow> Resolved () | Return \<Rightarrow> Resolved ()
      | Throw e \<Rightarrow> Rejected e | Stall \<Rightarrow> Pending)"
    using run assms(2) by (auto simp: executeMigration_up [OF assms(1)] split: flow.splits)
  from upLoop_outcome [OF run] obtain pre post tailc news where
    sp: "sortFiles ?pending = pre @ post"
    and c: "calls v = calls ?w0 @ map (\<lambda>g. (''up'', g, Resolved ())) pre @ tailc"
    and l: "ledger v = ledger ?w0 @ news" "map filename news = (if isTest then [] else pre)"
    and alt: "fl = Next \<and> post = [] \<and> tailc = []
       \<or> (\<exists>g rest. post = g # rest
            \<and> (fl = Return \<and> tailc = []
               \<or> fl = Stall \<and> tailc = [(''up'', g, Pending)]
               \<or> (\<exists>e'. fl = Throw e'
                    \<and> (tailc = [(''up'', g, Rejected e')] \<or> tailc = []))))"
    by blast
  from c v assms(3) have cs: "cs = map (\<lambda>g. (''up'', g, Resolved ())) pre @ tailc" by simp
  with assms(4) have "(''up'', f, Rejected e) \<in> set tailc" by auto
  with alt obtain rest where "post = f # rest" "fl = Throw e" "tailc = [(''up'', f, Rejected e)]"
    by auto
  with sp cs l v p have "p = Rejected e
      \<and> sortFiles ?pending = pre @ f # rest
      \<and> cs = map (\<lambda>g. (''up'', g, Resolved ())) pre @ [(''up'', f, Rejected e)]
      \<and> ledger w' = ledger w @ news
      \<and> map filename news = (if isTest then [] else pre)"
    by auto
  then show ?thesis by blast
qed

text \<open>
  With \<open>tags\<close>, \<open>users\<close> and \<open>orders\<close> pending, \<open>users\<close> runs first, \<open>orders\<close>
  throws, and only \<open>users\<close> is ledgered.
\<close>

theorem forward_failure_stops_run_witness:
  "fst (executeMigration demo ''up'' None '''' False (demoWorld [tagsFile, usersFile, ordersFile] []))
     = Rejected (Error ''orders failed'')
   \<and> map filename (ledger (snd (executeMigration demo ''up'' None '''' False
        (demoWorld [tagsFile, usersFile, ordersFile] [])))) = [usersFile]"
proof -
  let ?w = "demoWorld [tagsFile, usersFile, ordersFile] []"
  let ?run = "executeMigration demo ''up'' None '''' False ?w"
  have dir: "migrationsDir ?w = Some (map (\<lambda>n. (n, ''// Put your imports here''))
      [tagsFile, usersFile, ordersFile])" by (simp add: demoWorld_def)
  have run: "?run = (fst ?run, snd ?run)" by simp
  have cs: "calls (snd ?run) = calls ?w @ [(''up'', usersFile, Resolved ()),
      (''up'', ordersFile, Rejected (Error ''orders failed''))]"
    by (simp add: demo_eval del: sortFiles.simps)
  have mem: "(''up'', ordersFile, Rejected (Error ''orders failed''))
      \<in> set [(''up'', usersFile, Resolved ()), (''up'', ordersFile, Rejected (Error ''orders failed''))]"
    by simp
  note main = forward_failure_stops_run [OF dir run cs mem]
  from main have p: "fst ?run = Rejected (Error ''orders failed'')" by blast
  from main obtain pre news where
    c: "[(''up'', usersFile, Resolved ()), (''up'', ordersFile, Rejected (Error ''orders failed''))]
        = map (\<lambda>g. (''up'', g, Resolved ())) pre @ [(''up'', ordersFile, Rejected (Error ''orders failed''))]"
    and l: "ledger (snd ?run) = ledger ?w @ news" "map filename news = (if False then [] else pre)"
    by blast
  from c have "pre = [usersFile]" by (cases pre) auto
  with p l show ?thesis by (simp add: demoWorld_def)
qed

section \<open>A file without a forward transform\<close>

text \<open>
  Claim C4. In a forward run over a listed directory, let the sorted pending files be
  \<open>pre\<close>, then \<open>f\<close>, then \<open>post\<close>, where the compiled counterpart of \<open>f\<close> exports
  no \<open>up\<close>. Then the files whose \<open>up\<close> the run calls are among the first of \<open>pre\<close>,
  and so are the files it ledgers: neither \<open>f\<close> nor a file of \<open>post\<close> is called or
  ledgered. When the loop gets through \<open>pre\<close>, the call is fulfilled all the same, like a
  completed run, having printed \<open>migration up function not found\<close>: the world is the
  one the loop leaves, with that line and the one reading of the ledger.
\<close>

theorem missing_up_aborts_batch:
  assumes "migrationsDir w = Some entries"
    and "sortFiles (toMigrateFiles (map fst entries) (map filename (ledger w))) = pre @ f # post"
    and "importModule sv (builtMigrationDir sv @ ''/'' @ stripTs f) = Inr m"
    and "up m = None"
    and "executeMigration sv ''up'' repositories token isTest w = (p, w')"
  shows "(\<exists>cs news later later'.
            calls w' = calls w @ cs \<and> pre = map (fst \<circ> snd) cs @ later
          \<and> ledger w' = ledger w @ news \<and> pre = map filename news @ later')
    \<and> (\<forall>w1. forOf (upBody sv repositories isTest) pre w = (Next, w1) \<longrightarrow>
          p = Resolved ()
        \<and> w' = debug ''migration up function not found'' (w1\<lparr>finds := Suc (finds w)\<rparr>)
        \<and> calls w' = calls w @ map (\<lambda>g. (''up'', g, Resolved ())) pre)"
proof -
  let ?pending = "toMigrateFiles (map fst entries) (map filename (ledger w))"
  have ne: "?pending \<noteq> []" using assms(2) by auto
  obtain fl u where pre: "forOf (upBody sv repositories isTest) pre w = (fl, u)"
    by (cases "forOf (upBody sv repositories isTest) pre w")
  define v where "v = u\<lparr>finds := Suc (finds w)\<rparr>"
  have found: "forOf (upBody sv repositories isTest) pre (snd (migrationRepo_find w)) = (fl, v)"
    using pre upLoop_finds [of sv repositories isTest pre "Suc (finds w)" w]
    by (simp add: migrationRepo_find_def v_def)
  have vu: "calls v = calls u" "ledger v = ledger u" by (simp_all add: v_def)
  have body: "\<And>u. upBody sv repositories isTest f u = (Return, debug ''migration up function not found'' u)"
    using assms(3,4) by (simp add: upBody_def)
  have whole: "forOf (upBody sv repositories isTest) (pre @ f # post) (snd (migrationRepo_find w))
      = (if fl = Next then (Return, debug ''migration up function not found'' v) else (fl, v))"
    using found body by (cases fl) (simp_all add: forOf_append)
  have run: "executeMigration sv ''up'' repositories token isTest w
      = (case (if fl = Next then (Return, debug ''migration up function not found'' v) else (fl, v)) of
        (Next, w1) \<Rightarrow> (Resolved (), w1)
      | (Return, w1) \<Rightarrow> (Resolved (), w1)
      | (Throw e, w1) \<Rightarrow> (Rejected e, w1)
      | (Stall, w1) \<Rightarrow> (Pending, w1))"
    using ne whole by (simp add: executeMigration_up [OF assms(1)] assms(2))
  from upLoop_outcome [OF pre] obtain pre' post' tailc news where
    sp: "pre = pre' @ post'"
    and c: "calls v = calls w @ map (\<lambda>g. (''up'', g, Resolved ())) pre' @ tailc"
    and l: "ledger v = ledger w @ news" "map filename news = (if isTest then [] else pre')"
    and alt: "fl = Next \<and> post' = [] \<and> tailc = []
       \<or> (\<exists>g rest. post' = g # rest \<and> fl \<noteq> Next
            \<and> (tailc = [] \<or> (\<exists>q. tailc = [(''up'', g, q)])))"
    unfolding vu by blast
  have w': "w' = (if fl = Next then debug ''migration up function not found'' v else v)"
    and p: "fl = Next \<Longrightarrow> p = Resolved ()"
    using run assms(5) by (auto split: flow.splits if_splits)
  have calls: "\<exists>cs later. calls w' = calls w @ cs \<and> pre = map (fst \<circ> snd) cs @ later"
  proof -
    from alt have "tailc = [] \<or> (\<exists>g rest q. post' = g # rest \<and> tailc = [(''up'', g, q)])"
      by auto
    then show ?thesis
    proof
      assume "tailc = []"
      with c w' sp have "calls w' = calls w @ map (\<lambda>g. (''up'', g, Resolved ())) pre'
        \<and> pre = map (fst \<circ> snd) (map (\<lambda>g. (''up'', g, Resolved ())) pre') @ post'"
        by (simp add: comp_def)
      then show ?thesis by blast
    next
      assume "\<exists>g rest q. post' = g # rest \<and> tailc = [(''up'', g, q)]"
      then obtain g rest q where "post' = g # rest" "tailc = [(''up'', g, q)]" by blast
      with c w' sp have
        "calls w' = calls w @ (map (\<lambda>g. (''up'', g, Resolved ())) pre' @ [(''up'', g, q)])
        \<and> pre = map (fst \<circ> snd) (map (\<lambda>g. (''up'', g, Resolved ())) pre' @ [(''up'', g, q)]) @ rest"
        by (simp add: comp_def)
      then show ?thesis by blast
    qed
  qed
  have ledger: "\<exists>news later'. ledger w' = ledger w @ news \<and> pre = map filename news @ later'"
  proof (cases isTest)
    case True
    with l w' have "ledger w' = ledger w @ [] \<and> pre = map filename [] @ pre" by simp
    then show ?thesis by blast
  next
    case False
    with l w' sp have "ledger w' = ledger w @ news \<and> pre = map filename news @ post'" by simp
    then show ?thesis by blast
  qed
  have reach: "\<forall>w1. forOf (upBody sv repositories isTest) pre w = (Next, w1) \<longrightarrow>
          p = Resolved ()
        \<and> w' = debug ''migration up function not found'' (w1\<lparr>finds := Suc (finds w)\<rparr>)
        \<and> calls w' = calls w @ map (\<lambda>g. (''up'', g, Resolved ())) pre"
  proof (intro allI impI)
    fix w1 assume "forOf (upBody sv repositories isTest) pre w = (Next, w1)"
    with pre have "fl = Next" "v = w1\<lparr>finds := Suc (finds w)\<rparr>" by (simp_all add: v_def)
    with p w' alt c sp show "p = Resolved ()
        \<and> w' = debug ''migration up function not found'' (w1\<lparr>finds := Suc (finds w)\<rparr>)
        \<and> calls w' = calls w @ map (\<lambda>g. (''up'', g, Resolved ())) pre"
      by auto
  qed
  from calls ledger reach show ?thesis by blast
qed

text \<open>
  With \<open>users\<close>, \<open>audit\<close> and \<open>tags\<close> pending in that order, \<open>users\<close> runs,
  \<open>audit\<close> has no \<open>up\<close>, \<open>tags\<close> is never called, and the run is fulfilled.
\<close>

theorem missing_up_aborts_batch_witness:
  "fst (executeMigration demo ''up'' None '''' False (demoWorld [tagsFile, auditFile, usersFile] []))
     = Resolved ()
   \<and> calls (snd (executeMigration demo ''up'' None '''' False
        (demoWorld [tagsFile, auditFile, usersFile] []))) = [(''up'', usersFile, Resolved ())]"
proof -
  let ?w = "demoWorld [tagsFile, auditFile, usersFile] []"
  let ?run = "executeMigration demo ''up'' None '''' False ?w"
  have dir: "migrationsDir ?w = Some (map (\<lambda>n. (n, ''// Put your imports here''))
      [tagsFile, auditFile, usersFile])" by (simp add: demoWorld_def)
  have sorted: "sortFiles (toMigrateFiles
        (map fst (map (\<lambda>n. (n, ''// Put your imports here'')) [tagsFile, auditFile, usersFile]))
        (map filename (ledger ?w))) = [usersFile] @ auditFile # [tagsFile]"
    by (simp add: demo_eval del: sortFiles.simps)
  have imp: "importModule demo (builtMigrationDir demo @ ''/'' @ stripTs auditFile)
      = Inr \<lparr>up = None, down = None\<rparr>"
    by (simp add: demo_eval)
  have noUp: "up \<lparr>up = None, down = (None :: (unit, string list) transform option)\<rparr> = None" by simp
  have run: "?run = (fst ?run, snd ?run)" by simp
  obtain w1 where pre: "forOf (upBody demo None False) [usersFile] ?w = (Next, w1)"
    by (simp add: demo_eval)
  from missing_up_aborts_batch [OF dir sorted imp noUp run] pre
  have "fst ?run = Resolved ()"
    and "calls (snd ?run) = calls ?w @ map (\<lambda>g. (''up'', g, Resolved ())) [usersFile]"
    by blast+
  then show ?thesis by (simp add: demoWorld_def)
qed

section \<open>Substrings\<close>

lemma startsWith_iff: "startsWith s t \<longleftrightarrow> (\<exists>post. s = t @ post)"
  by (induction s t rule: startsWith.induct) auto

lemma includesStr_iff: "includesStr s t \<longleftrightarrow> (\<exists>pre post. s = pre @ t @ post)"
proof (induction s)
  case Nil
  show ?case by auto
next
  case (Cons d s)
  show ?case
  proof
    assume "includesStr (d # s) t"
    then consider "startsWith (d # s) t" | "includesStr s t" by auto
    then show "\<exists>pre post. d # s = pre @ t @ post"
    proof cases
      case 1
      then obtain post where "d # s = [] @ t @ post" by (auto simp: startsWith_iff)
      then show ?thesis by blast
    next
      case 2
      with Cons obtain pre post where "s = pre @ t @ post" by blast
      then have "d # s = (d # pre) @ t @ post" by simp
      then show ?thesis by blast
    qed
  next
    assume "\<exists>pre post. d # s = pre @ t @ post"
    then obtain pre post where eq: "d # s = pre @ t @ post" by blast
    show "includesStr (d # s) t"
    proof (cases pre)
      case Nil
      with eq have "startsWith (d # s) t" by (auto simp: startsWith_iff)
      then show ?thesis by simp
    next
      case (Cons a pre')
      with eq have "s = pre' @ t @ post" by simp
      with Cons.IH have "includesStr s t" by blast
      then show ?thesis by simp
    qed
  qed
qed

section \<open>The reverse run\<close>

lemma downBody_fields:
  assumes "downBody sv r f w = (fl, w')"
  shows "ledger w' = ledger w" and "migrationsDir w' = migrationsDir w"
    and "calls w' = calls w \<or> (\<exists>q. calls w' = calls w @ [(''down'', f, q)])"
  using assms
  by (auto simp: downBody_def Let_def invoke_eq
      split: sum.splits option.splits promise.splits if_splits)

lemma downLoop_fields:
  assumes "forOf (downBody sv r) fs w = (fl, w')"
  shows "ledger w' = ledger w \<and> migrationsDir w' = migrationsDir w
    \<and> (\<exists>cs. calls w' = calls w @ cs \<and> subseq (map (fst \<circ> snd) cs) fs
          \<and> (\<forall>c\<in>set cs. fst c = ''down''))"
  using assms
proof (induction fs arbitrary: w)
  case Nil
  then show ?case by simp
next
  case (Cons g gs)
  obtain fl1 v where b: "downBody sv r g w = (fl1, v)" by (cases "downBody sv r g w")
  note bf = downBody_fields [OF b]
  from bf(3) obtain c1 where c1: "calls v = calls w @ c1" "c1 = [] \<or> (\<exists>q. c1 = [(''down'', g, q)])"
    by auto
  show ?case
  proof (cases "fl1 = Next")
    case True
    with Cons.prems b have "forOf (downBody sv r) gs v = (fl, w')" by simp
    from Cons.IH [OF this] obtain cs where
      ih: "ledger w' = ledger v" "migrationsDir w' = migrationsDir v" "calls w' = calls v @ cs"
        "subseq (map (fst \<circ> snd) cs) gs" "\<forall>c\<in>set cs. fst c = ''down''" by blast
    from c1(2) ih(4,5) have "subseq (map (fst \<circ> snd) (c1 @ cs)) (g # gs)
        \<and> (\<forall>c\<in>set (c1 @ cs). fst c = ''down'')" by auto
    with ih(1-3) bf(1,2) c1(1) have "ledger w' = ledger w \<and> migrationsDir w' = migrationsDir w
        \<and> calls w' = calls w @ (c1 @ cs) \<and> subseq (map (fst \<circ> snd) (c1 @ cs)) (g # gs)
        \<and> (\<forall>c\<in>set (c1 @ cs). fst c = ''down'')" by simp
    then show ?thesis by blast
  next
    case False
    with Cons.prems b have "w' = v" by (cases fl1) auto
    moreover from c1(2) have "subseq (map (fst \<circ> snd) c1) (g # gs) \<and> (\<forall>c\<in>set c1. fst c = ''down'')"
      by auto
    ultimately have "ledger w' = ledger w \<and> migrationsDir w' = migrationsDir w
        \<and> calls w' = calls w @ c1 \<and> subseq (map (fst \<circ> snd) c1) (g # gs)
        \<and> (\<forall>c\<in>set c1. fst c = ''down'')" using bf(1,2) c1(1) by simp
    then show ?thesis by blast
  qed
qed

text \<open>A reverse run over files that all have a compiled counterpart whose \<open>down\<close> is fulfilled.\<close>

lemma downLoop_all:
  assumes "\<forall>f\<in>set fs. existsSync sv (builtMigrationDir sv @ ''/'' @ stripTs f @ ''.js'')
      \<and> (\<exists>m fn. importModule sv (builtMigrationDir sv @ ''/'' @ stripTs f) = Inr m
            \<and> down m = Some fn \<and> (\<forall>s. fst (fn r s) = Resolved ()))"
  shows "fst (forOf (downBody sv r) fs w) = Next
    \<and> calls (snd (forOf (downBody sv r) fs w)) = calls w @ map (\<lambda>f. (''down'', f, Resolved ())) fs"
  using assms
proof (induction fs arbitrary: w)
  case Nil
  show ?case by simp
next
  case (Cons g gs)
  from Cons.prems obtain m fn where
    g: "existsSync sv (builtMigrationDir sv @ ''/'' @ stripTs g @ ''.js'')"
      "importModule sv (builtMigrationDir sv @ ''/'' @ stripTs g) = Inr m" "down m = Some fn"
      "\<forall>s. fst (fn r s) = Resolved ()" by auto
  obtain v where b: "downBody sv r g w = (Next, v)" and cv: "calls v = calls w @ [(''down'', g, Resolved ())]"
    using g by (simp add: downBody_def Let_def invoke_eq)
  from Cons.prems have "\<forall>f\<in>set gs. existsSync sv (builtMigrationDir sv @ ''/'' @ stripTs f @ ''.js'')
      \<and> (\<exists>m fn. importModule sv (builtMigrationDir sv @ ''/'' @ stripTs f) = Inr m
            \<and> down m = Some fn \<and> (\<forall>s. fst (fn r s) = Resolved ()))" by simp
  from Cons.IH [OF this, of v] b cv show ?case by simp
qed

lemma executeMigration_down:
  assumes "migrationsDir w = Some entries" and "token \<noteq> []"
  shows "executeMigration sv ''down'' r token t w =
     (if filteredFiles (map filename (ledger w)) token = []
      then (Resolved (), debug notYetMigrated (snd (migrationRepo_find w)))
      else (case forOf (downBody sv r) (filteredFiles (map filename (ledger w)) token)
                   (snd (migrationRepo_find w)) of
          (Next, w1) \<Rightarrow> (Resolved (),
             consoleLog (map filename (ledger w)) (filteredFiles (map filename (ledger w)) token) w1)
        | (Return, w1) \<Rightarrow> (Resolved (), w1)
        | (Throw e, w1) \<Rightarrow> (Rejected e, w1)
        | (Stall, w1) \<Rightarrow> (Pending, w1)))"
  using assms by (simp add: executeMigration_def readDir_def Let_def migrationRepo_find_def)

text \<open>The reverse run where the migrations directory can be listed.\<close>

lemma reverse_run_listed:
  assumes "migrationsDir w = Some entries" and "token \<noteq> []"
    and "executeMigration sv ''down'' repositories token isTest w = (p, w')"
  shows "(\<exists>cs. calls w' = calls w @ cs
          \<and> subseq (map (fst \<circ> snd) cs) (filteredFiles (map filename (ledger w)) token)
          \<and> (\<forall>c\<in>set cs. fst c = ''down''))
    \<and> ((\<forall>f\<in>set (filteredFiles (map filename (ledger w)) token).
           existsSync sv (builtMigrationDir sv @ ''/'' @ stripTs f @ ''.js'')
         \<and> (\<exists>m fn. importModule sv (builtMigrationDir sv @ ''/'' @ stripTs f) = Inr m
               \<and> down m = Some fn \<and> (\<forall>s. fst (fn repositories s) = Resolved ()))) \<longrightarrow>
         p = Resolved ()
       \<and> calls w' = calls w @ map (\<lambda>f. (''down'', f, Resolved ()))
                                (filteredFiles (map filename (ledger w)) token))
    \<and> (filteredFiles (map filename (ledger w)) token = [] \<longrightarrow>
         p = Resolved () \<and> w' = debug notYetMigrated (snd (migrationRepo_find w))
       \<and> calls w' = calls w)
    \<and> ledger w' = ledger w"
proof -
  let ?sel = "filteredFiles (map filename (ledger w)) token"
  let ?F = "snd (migrationRepo_find w)"
  note run = executeMigration_down [OF assms(1,2), of sv repositories isTest]
  obtain fl v where loop: "forOf (downBody sv repositories) ?sel ?F = (fl, v)"
    by (cases "forOf (downBody sv repositories) ?sel ?F")
  from downLoop_fields [OF loop] obtain cs where
    lf: "ledger v = ledger w" "calls v = calls w @ cs" "subseq (map (fst \<circ> snd) cs) ?sel"
      "\<forall>c\<in>set cs. fst c = ''down''" by auto
  have d: "?sel = [] \<longrightarrow> p = Resolved () \<and> w' = debug notYetMigrated ?F \<and> calls w' = calls w"
    using assms(3) run by auto
  have w': "?sel \<noteq> [] \<Longrightarrow> calls w' = calls v \<and> ledger w' = ledger v"
    using assms(3) run loop by (auto split: flow.splits)
  have e: "ledger w' = ledger w"
  proof (cases "?sel = []")
    case True
    with d show ?thesis by simp
  next
    case False
    from w' [OF False] lf(1) show ?thesis by simp
  qed
  have b: "\<exists>cs. calls w' = calls w @ cs \<and> subseq (map (fst \<circ> snd) cs) ?sel
          \<and> (\<forall>c\<in>set cs. fst c = ''down'')"
  proof (cases "?sel = []")
    case True
    with d have "calls w' = calls w @ [] \<and> subseq (map (fst \<circ> snd) []) ?sel
          \<and> (\<forall>c\<in>set ([] :: (string \<times> string \<times> unit promise) list). fst c = ''down'')"
      by simp
    then show ?thesis by blast
  next
    case False
    from w' [OF False] lf show ?thesis by auto
  qed
  have c: "(\<forall>f\<in>set ?sel.
           existsSync sv (builtMigrationDir sv @ ''/'' @ stripTs f @ ''.js'')
         \<and> (\<exists>m fn. importModule sv (builtMigrationDir sv @ ''/'' @ stripTs f) = Inr m
               \<and> down m = Some fn \<and> (\<forall>s. fst (fn repositories s) = Resolved ()))) \<longrightarrow>
         p = Resolved () \<and> calls w' = calls w @ map (\<lambda>f. (''down'', f, Resolved ())) ?sel"
  proof
    assume all: "\<forall>f\<in>set ?sel.
           existsSync sv (builtMigrationDir sv @ ''/'' @ stripTs f @ ''.js'')
         \<and> (\<exists>m fn. importModule sv (builtMigrationDir sv @ ''/'' @ stripTs f) = Inr m
               \<and> down m = Some fn \<and> (\<forall>s. fst (fn repositories s) = Resolved ()))"
    from downLoop_all [OF all, of ?F] loop
    have n: "fl = Next" "calls v = calls w @ map (\<lambda>f. (''down'', f, Resolved ())) ?sel" by simp_all
    show "p = Resolved () \<and> calls w' = calls w @ map (\<lambda>f. (''down'', f, Resolved ())) ?sel"
    proof (cases "?sel = []")
      case True
      with d show ?thesis by simp
    next
      case False
      with assms(3) run loop n show ?thesis by auto
    qed
  qed
  from b c d e show ?thesis by blast
qed

text \<open>
  Claim C6, as the spec states it: in every reverse run with a token that is not empty,
  the ledgered names containing the token would be executed, and a token that no ledgered
  name contains would give an informational report, not an error. The run lists the
  migrations directory before anything else. Where that directory does not exist, as where
  the compiled files alone are installed, with \<open>users\<close> ledgered: the token \<open>2023\<close>,
  which no ledgered name contains, gives the error of the listing; and the token
  \<open>users\<close> selects the \<open>users\<close> file, yet the run is rejected with that error and has
  called nothing.
\<close>

theorem reverse_run_unlisted_counterexample:
  "fst (executeMigration demo ''down'' None ''2023'' False (unlistedWorld [usersFile]))
     = Rejected (Error (''ENOENT: no such file or directory, scandir '' @ [CHR 0x27]
         @ ''/app/src/migrations'' @ [CHR 0x27]))
   \<and> filteredFiles [usersFile] ''users'' = [usersFile]
   \<and> fst (executeMigration demo ''down'' None ''users'' False (unlistedWorld [usersFile]))
     = Rejected (Error (''ENOENT: no such file or directory, scandir '' @ [CHR 0x27]
         @ ''/app/src/migrations'' @ [CHR 0x27]))
   \<and> calls (snd (executeMigration demo ''down'' None ''users'' False (unlistedWorld [usersFile])))
     = []"
  by (simp add: executeMigration_def readDir_def unlistedWorld_def demo_def filteredFiles_def
      usersFile_def)

text \<open>
  Claim C6, amended. In a reverse run with a token that is not empty, the files selected
  are the ledgered names that contain the token as a substring, in ledger order; every call
  of the run is a \<open>down\<close> of a selected file, in that order; and the ledger is left as it
  was. Where the migrations directory cannot be listed, the run is rejected with the error
  of the listing and the world is untouched: nothing is called, whatever the token selects.
  Where the directory can be listed: when each selected file has a compiled counterpart
  whose \<open>down\<close> is fulfilled, the run is fulfilled and has called the \<open>down\<close> of every
  selected file, once for each time the name is selected; and when no ledgered name
  contains the token, the run calls nothing and is fulfilled after reading the ledger once
  and printing that the file is not yet migrated.
\<close>

theorem reverse_run_selects_by_substring:
  assumes "token \<noteq> []"
    and "executeMigration sv ''down'' repositories token isTest w = (p, w')"
  shows "filteredFiles (map filename (ledger w)) token
           = filter (\<lambda>f. \<exists>pre post. f = pre @ token @ post) (map filename (ledger w))
    \<and> (\<exists>cs. calls w' = calls w @ cs
          \<and> subseq (map (fst \<circ> snd) cs) (filteredFiles (map filename (ledger w)) token)
          \<and> (\<forall>c\<in>set cs. fst c = ''down''))
    \<and> ledger w' = ledger w
    \<and> (migrationsDir w = None \<longrightarrow> (\<exists>e. readDir sv w = Inl e \<and> p = Rejected e) \<and> w' = w)
    \<and> (migrationsDir w \<noteq> None \<longrightarrow>
         ((\<forall>f\<in>set (filteredFiles (map filename (ledger w)) token).
             existsSync sv (builtMigrationDir sv @ ''/'' @ stripTs f @ ''.js'')
           \<and> (\<exists>m fn. importModule sv (builtMigrationDir sv @ ''/'' @ stripTs f) = Inr m
                 \<and> down m = Some fn \<and> (\<forall>s. fst (fn repositories s) = Resolved ()))) \<longrightarrow>
           p = Resolved ()
         \<and> calls w' = calls w @ map (\<lambda>f. (''down'', f, Resolved ()))
                                  (filteredFiles (map filename (ledger w)) token))
       \<and> (filteredFiles (map filename (ledger w)) token = [] \<longrightarrow>
           p = Resolved () \<and> w' = debug notYetMigrated (snd (migrationRepo_find w))
         \<and> calls w' = calls w))"
proof -
  let ?sel = "filteredFiles (map filename (ledger w)) token"
  have a: "?sel = filter (\<lambda>f. \<exists>pre post. f = pre @ token @ post) (map filename (ledger w))"
    by (simp add: filteredFiles_def includesStr_iff)
  show ?thesis
  proof (cases "migrationsDir w")
    case None
    then have r: "readDir sv w = Inl (Error (''ENOENT: no such file or directory, scandir ''
        @ [CHR 0x27] @ rawMigrationDir sv @ [CHR 0x27]))"
      by (simp add: readDir_def)
    with assms(2) have pw: "p = Rejected (Error (''ENOENT: no such file or directory, scandir ''
        @ [CHR 0x27] @ rawMigrationDir sv @ [CHR 0x27]))" "w' = w"
      by (simp_all add: executeMigration_def)
    have "calls w' = calls w @ [] \<and> subseq (map (fst \<circ> snd) []) ?sel
          \<and> (\<forall>c\<in>set ([] :: (string \<times> string \<times> unit promise) list). fst c = ''down'')"
      using pw by simp
    then have b: "\<exists>cs. calls w' = calls w @ cs \<and> subseq (map (fst \<circ> snd) cs) ?sel
          \<and> (\<forall>c\<in>set cs. fst c = ''down'')" by blast
    from r pw have c: "(\<exists>e. readDir sv w = Inl e \<and> p = Rejected e) \<and> w' = w" by simp
    from a b c pw None show ?thesis by simp
  next
    case (Some entries)
    from reverse_run_listed [OF Some assms] a Some show ?thesis by simp
  qed
qed

text \<open>
  With \<open>users\<close>, \<open>orders\<close> and \<open>tags\<close> ledgered and the directory listed, the token
  \<open>s_05-\<close> selects all three, \<open>2024_12\<close> selects \<open>tags\<close> alone, whose \<open>down\<close> then
  runs, and \<open>2023\<close> selects nothing. With \<open>users\<close> ledgered and no directory to list,
  the token \<open>users\<close> leaves the world as it was.
\<close>

theorem reverse_run_selects_by_substring_witness:
  "filteredFiles [usersFile, ordersFile, tagsFile] ''s_05-'' = [usersFile, ordersFile, tagsFile]
   \<and> filteredFiles [usersFile, ordersFile, tagsFile] ''2024_12'' = [tagsFile]
   \<and> fst (executeMigration demo ''down'' None ''2024_12'' False
         (demoWorld [] [usersFile, ordersFile, tagsFile])) = Resolved ()
   \<and> calls (snd (executeMigration demo ''down'' None ''2024_12'' False
         (demoWorld [] [usersFile, ordersFile, tagsFile]))) = [(''down'', tagsFile, Resolved ())]
   \<and> executeMigration demo ''down'' None ''2023'' False (demoWorld [] [usersFile, ordersFile, tagsFile])
       = (Resolved (), debug notYetMigrated
            (snd (migrationRepo_find (demoWorld [] [usersFile, ordersFile, tagsFile]))))
   \<and> snd (executeMigration demo ''down'' None ''users'' False (unlistedWorld [usersFile]))
       = unlistedWorld [usersFile]"
proof -
  let ?w = "demoWorld [] [usersFile, ordersFile, tagsFile]"
  let ?u = "unlistedWorld [usersFile]"
  let ?run = "executeMigration demo ''down'' None ''2024_12'' False ?w"
  let ?none = "executeMigration demo ''down'' None ''2023'' False ?w"
  let ?lost = "executeMigration demo ''down'' None ''users'' False ?u"
  have dir: "migrationsDir ?w \<noteq> None" by (simp add: demoWorld_def)
  have nodir: "migrationsDir ?u = None" by (simp add: unlistedWorld_def)
  have led: "map filename (ledger ?w) = [usersFile, ordersFile, tagsFile]" by (simp add: demoWorld_def)
  have f1: "filteredFiles [usersFile, ordersFile, tagsFile] ''s_05-'' = [usersFile, ordersFile, tagsFile]"
    and f2: "filteredFiles [usersFile, ordersFile, tagsFile] ''2024_12'' = [tagsFile]"
    and f3: "filteredFiles [usersFile, ordersFile, tagsFile] ''2023'' = []"
    by (simp_all add: demo_eval)
  have t1: "''2024_12'' \<noteq> []" and t2: "''2023'' \<noteq> []" and t3: "''users'' \<noteq> []" by simp_all
  have run: "?run = (fst ?run, snd ?run)" and none: "?none = (fst ?none, snd ?none)"
    and lost: "?lost = (fst ?lost, snd ?lost)" by simp_all
  have ok: "\<forall>f\<in>set (filteredFiles (map filename (ledger ?w)) ''2024_12'').
       existsSync demo (builtMigrationDir demo @ ''/'' @ stripTs f @ ''.js'')
     \<and> (\<exists>m fn. importModule demo (builtMigrationDir demo @ ''/'' @ stripTs f) = Inr m
           \<and> down m = Some fn \<and> (\<forall>s. fst (fn None s) = Resolved ()))"
    unfolding led f2 by (simp add: demo_eval)
  from reverse_run_selects_by_substring [OF t1 run] dir ok
  have r1: "fst ?run = Resolved ()"
    and r2: "calls (snd ?run) = calls ?w @ map (\<lambda>f. (''down'', f, Resolved ()))
        (filteredFiles (map filename (ledger ?w)) ''2024_12'')"
    by blast+
  from reverse_run_selects_by_substring [OF t2 none] dir f3 led
  have r3: "fst ?none = Resolved ()" "snd ?none = debug notYetMigrated (snd (migrationRepo_find ?w))"
    by simp_all
  from r3 have r4: "?none = (Resolved (), debug notYetMigrated (snd (migrationRepo_find ?w)))"
    by (simp add: prod_eq_iff)
  from r2 have r5: "calls (snd ?run) = [(''down'', tagsFile, Resolved ())]"
    unfolding led f2 by (simp add: demoWorld_def)
  from reverse_run_selects_by_substring [OF t3 lost] nodir
  have r6: "snd ?lost = ?u" by blast
  from f1 f2 r1 r5 r4 r6 show ?thesis by simp
qed

section \<open>What changes the ledger\<close>

lemma listen_fields:
  "ledger (snd (listen evs p w)) = ledger w \<and> calls (snd (listen evs p w)) = calls w
   \<and> store (snd (listen evs p w)) = store w"
  by (induction evs p w rule: listen.induct) simp_all

lemma listen_settled: "p \<noteq> Pending \<Longrightarrow> fst (listen evs p w) = p"
proof (induction evs p w rule: listen.induct)
  case (2 e evs p w)
  then show ?case by (cases p) auto
next
  case (3 code evs p w)
  then show ?case by (cases p) auto
qed simp

lemma listen_first:
  "fst (listen evs Pending w) =
     (case evs of [] \<Rightarrow> Pending | ErrorEvent e # rest \<Rightarrow> Rejected e
      | CloseEvent code # rest \<Rightarrow> Resolved True)"
  by (cases evs) (auto simp: listen_settled split: childEvent.splits)

lemma backupMongoDb_fields:
  "ledger (snd (backupMongoDb sv w)) = ledger w \<and> calls (snd (backupMongoDb sv w)) = calls w
   \<and> store (snd (backupMongoDb sv w)) = store w"
  by (simp add: backupMongoDb_def Let_def newDate_def listen_fields)

lemma generateMigrationFile_fields:
  "ledger (snd (generateMigrationFile sv name w)) = ledger w
   \<and> calls (snd (generateMigrationFile sv name w)) = calls w
   \<and> store (snd (generateMigrationFile sv name w)) = store w"
  by (simp add: generateMigrationFile_def Let_def newDate_def writeFile_def)

lemma executeMigration_backup_fields:
  "ledger (snd (executeMigration sv ''backup'' r tok t w)) = ledger w
   \<and> calls (snd (executeMigration sv ''backup'' r tok t w)) = calls w"
proof (cases "readDir sv w")
  case (Inl e)
  then show ?thesis by (simp add: executeMigration_def)
next
  case (Inr files)
  let ?F = "snd (migrationRepo_find w)"
  obtain q v where b: "backupMongoDb sv ?F = (q, v)" by (cases "backupMongoDb sv ?F")
  with backupMongoDb_fields [of sv ?F] have "ledger v = ledger w" "calls v = calls w" by simp_all
  with Inr b show ?thesis by (cases q) (simp_all add: executeMigration_def Let_def split_beta)
qed

lemma executeMigration_down_ledger:
  "ledger (snd (executeMigration sv ''down'' r tok t w)) = ledger w"
proof (cases "migrationsDir w")
  case None
  then show ?thesis by (simp add: executeMigration_def readDir_def)
next
  case (Some entries)
  show ?thesis
  proof (cases "tok = []")
    case True
    with Some show ?thesis
      by (simp add: executeMigration_def readDir_def Let_def migrationRepo_find_def)
  next
    case False
    let ?sel = "filteredFiles (map filename (ledger w)) tok"
    let ?F = "snd (migrationRepo_find w)"
    obtain fl v where loop: "forOf (downBody sv r) ?sel ?F = (fl, v)"
      by (cases "forOf (downBody sv r) ?sel ?F")
    from downLoop_fields [OF loop] have "ledger v = ledger w" by simp
    with loop show ?thesis
      by (cases fl) (simp_all add: executeMigration_down [OF Some False])
  qed
qed

text \<open>What a forward run adds to the ledger and to the calls.\<close>

lemma executeMigration_up_ledger:
  "\<exists>cs news. calls (snd (executeMigration sv ''up'' r tok t w)) = calls w @ cs
     \<and> ledger (snd (executeMigration sv ''up'' r tok t w)) = ledger w @ news
     \<and> (t \<longrightarrow> news = [])
     \<and> (\<not> t \<longrightarrow> map filename news = map (fst \<circ> snd) (filter (\<lambda>c. snd (snd c) = Resolved ()) cs))"
proof (cases "migrationsDir w")
  case None
  then have "calls (snd (executeMigration sv ''up'' r tok t w)) = calls w @ []
     \<and> ledger (snd (executeMigration sv ''up'' r tok t w)) = ledger w @ []"
    by (simp add: executeMigration_def readDir_def)
  then show ?thesis by force
next
  case (Some entries)
  let ?pending = "toMigrateFiles (map fst entries) (map filename (ledger w))"
  let ?w0 = "if ?pending = []
    then debug ''No migrations to execute. Database is up to date'' (snd (migrationRepo_find w))
    else snd (migrationRepo_find w)"
  obtain fl v where run: "forOf (upBody sv r t) (sortFiles ?pending) ?w0 = (fl, v)"
    by (cases "forOf (upBody sv r t) (sortFiles ?pending) ?w0")
  have v: "snd (executeMigration sv ''up'' r tok t w) = v"
    using run by (simp add: executeMigration_up [OF Some] split: flow.splits)
  from upLoop_outcome [OF run] obtain pre tailc news where
    c: "calls v = calls ?w0 @ map (\<lambda>g. (''up'', g, Resolved ())) pre @ tailc"
    and l: "ledger v = ledger ?w0 @ news" "map filename news = (if t then [] else pre)"
    and tl: "tailc = [] \<or> (\<exists>f q. tailc = [(''up'', f, q)] \<and> q \<noteq> Resolved ())"
    by blast
  have f: "map (fst \<circ> snd) (filter (\<lambda>c. snd (snd c) = Resolved ())
             (map (\<lambda>g. (''up'', g, Resolved ())) pre @ tailc)) = pre"
    using tl by (auto simp: comp_def filter_map)
  have "calls v = calls w @ (map (\<lambda>g. (''up'', g, Resolved ())) pre @ tailc)
     \<and> ledger v = ledger w @ news
     \<and> (t \<longrightarrow> news = [])
     \<and> (\<not> t \<longrightarrow> map filename news = map (fst \<circ> snd) (filter (\<lambda>c. snd (snd c) = Resolved ())
           (map (\<lambda>g. (''up'', g, Resolved ())) pre @ tailc)))"
    using c l f by auto
  with v show ?thesis by metis
qed

text \<open>A test run beside the run that records, from worlds with the same store and calls.\<close>

lemma upBody_test_sim:
  assumes "store v = store w" and "calls v = calls w"
  shows "fst (upBody sv r True f v) = fst (upBody sv r False f w)
    \<and> store (snd (upBody sv r True f v)) = store (snd (upBody sv r False f w))
    \<and> calls (snd (upBody sv r True f v)) = calls (snd (upBody sv r False f w))"
  using assms
  by (auto simp: upBody_def invoke_eq split: sum.splits option.splits promise.splits)

lemma upLoop_test_sim:
  assumes "store v = store w" and "calls v = calls w"
  shows "fst (forOf (upBody sv r True) fs v) = fst (forOf (upBody sv r False) fs w)
    \<and> store (snd (forOf (upBody sv r True) fs v)) = store (snd (forOf (upBody sv r False) fs w))
    \<and> calls (snd (forOf (upBody sv r True) fs v)) = calls (snd (forOf (upBody sv r False) fs w))"
  using assms
proof (induction fs arbitrary: v w)
  case Nil
  then show ?case by simp
next
  case (Cons g gs)
  obtain f1 v1 where b1: "upBody sv r True g v = (f1, v1)" by (cases "upBody sv r True g v")
  obtain f2 w1 where b2: "upBody sv r False g w = (f2, w1)" by (cases "upBody sv r False g w")
  from upBody_test_sim [OF Cons.prems, of sv r g] b1 b2
  have s: "f1 = f2" "store v1 = store w1" "calls v1 = calls w1" by simp_all
  show ?case
  proof (cases "f2 = Next")
    case True
    with b1 b2 s Cons.IH [OF s(2,3)] show ?thesis by simp
  next
    case False
    with b1 b2 s show ?thesis by (cases f2) simp_all
  qed
qed

lemma executeMigration_test_sim:
  "fst (executeMigration sv ''up'' r tok True w) = fst (executeMigration sv ''up'' r tok' False w)
   \<and> store (snd (executeMigration sv ''up'' r tok True w))
       = store (snd (executeMigration sv ''up'' r tok' False w))
   \<and> calls (snd (executeMigration sv ''up'' r tok True w))
       = calls (snd (executeMigration sv ''up'' r tok' False w))"
proof (cases "migrationsDir w")
  case None
  then show ?thesis by (simp add: executeMigration_def readDir_def)
next
  case (Some entries)
  let ?pending = "toMigrateFiles (map fst entries) (map filename (ledger w))"
  let ?w0 = "if ?pending = []
    then debug ''No migrations to execute. Database is up to date'' (snd (migrationRepo_find w))
    else snd (migrationRepo_find w)"
  obtain f1 v1 where r1: "forOf (upBody sv r True) (sortFiles ?pending) ?w0 = (f1, v1)"
    by (cases "forOf (upBody sv r True) (sortFiles ?pending) ?w0")
  obtain f2 v2 where r2: "forOf (upBody sv r False) (sortFiles ?pending) ?w0 = (f2, v2)"
    by (cases "forOf (upBody sv r False) (sortFiles ?pending) ?w0")
  from upLoop_test_sim [of ?w0 ?w0 sv r "sortFiles ?pending"] r1 r2
  have "f1 = f2" "store v1 = store v2" "calls v1 = calls v2" by simp_all
  with r1 r2 show ?thesis
    by (cases f2) (simp_all add: executeMigration_up [OF Some])
qed

text \<open>
  Claim C5. For every argument vector, \<open>migrate\<close> only ever appends to the ledger. Unless
  the action is \<open>up\<close> without the token \<open>test\<close>, the ledger is left as it was: so it is
  by \<open>create\<close>, \<open>backup\<close>, an unknown action, a reverse run even after a \<open>down\<close> was
  fulfilled, and a test run. A forward run that is not a test appends one entry for each
  call of an \<open>up\<close> that was fulfilled, in the order of the calls, and nothing else. A test
  run calls the same transforms with the same outcomes, and leaves the same store, as the
  run without the flag from the same world.
\<close>

theorem ledger_changed_only_by_recording_forward_run:
  "(\<exists>news. ledger (snd (migrate sv args repositories w)) = ledger w @ news)
   \<and> (truthyArg args 2 \<noteq> Some ''up'' \<or> truthyArg args 3 = Some ''test'' \<longrightarrow>
        ledger (snd (migrate sv args repositories w)) = ledger w)
   \<and> (truthyArg args 2 = Some ''up'' \<and> truthyArg args 3 \<noteq> Some ''test'' \<longrightarrow>
        (\<exists>cs news. calls (snd (migrate sv args repositories w)) = calls w @ cs
           \<and> ledger (snd (migrate sv args repositories w)) = ledger w @ news
           \<and> map filename news
               = map (fst \<circ> snd) (filter (\<lambda>c. snd (snd c) = Resolved ()) cs)))
   \<and> (truthyArg args 2 = Some ''up'' \<and> truthyArg args 3 = Some ''test''
       \<and> truthyArg args' 2 = Some ''up'' \<and> truthyArg args' 3 \<noteq> Some ''test'' \<longrightarrow>
        fst (migrate sv args repositories w) = fst (migrate sv args' repositories w)
      \<and> store (snd (migrate sv args repositories w)) = store (snd (migrate sv args' repositories w))
      \<and> calls (snd (migrate sv args repositories w)) = calls (snd (migrate sv args' repositories w)))"
proof -
  let ?w' = "snd (migrate sv args repositories w)"
  let ?tok = "case truthyArg args 3 of Some name \<Rightarrow> name | None \<Rightarrow> []"
  let ?tok' = "case truthyArg args' 3 of Some name \<Rightarrow> name | None \<Rightarrow> []"
  have up: "truthyArg args 2 = Some ''up'' \<Longrightarrow> migrate sv args repositories w
      = executeMigration sv ''up'' repositories ?tok (truthyArg args 3 = Some ''test'') w"
    by (simp add: migrate_def Let_def)
  have up': "truthyArg args' 2 = Some ''up'' \<Longrightarrow> migrate sv args' repositories w
      = executeMigration sv ''up'' repositories ?tok' (truthyArg args' 3 = Some ''test'') w"
    by (simp add: migrate_def Let_def)
  have other: "truthyArg args 2 \<noteq> Some ''up'' \<Longrightarrow> ledger ?w' = ledger w"
  proof -
    assume n: "truthyArg args 2 \<noteq> Some ''up''"
    consider (create) "truthyArg args 2 = Some ''create''" | (down) "truthyArg args 2 = Some ''down''"
      | (backup) "truthyArg args 2 = Some ''backup''"
      | (none) "truthyArg args 2 \<noteq> Some ''create''" "truthyArg args 2 \<noteq> Some ''down''"
          "truthyArg args 2 \<noteq> Some ''backup''" by blast
    then show ?thesis
    proof cases
      case create
      then show ?thesis
        by (cases "truthyArg args 3") (simp_all add: migrate_def Let_def generateMigrationFile_fields)
    next
      case down
      then show ?thesis by (simp add: migrate_def Let_def executeMigration_down_ledger)
    next
      case backup
      then show ?thesis by (simp add: migrate_def Let_def executeMigration_backup_fields)
    next
      case none
      with n show ?thesis by (simp add: migrate_def Let_def)
    qed
  qed
  have test: "truthyArg args 2 = Some ''up'' \<Longrightarrow> truthyArg args 3 = Some ''test''
      \<Longrightarrow> ledger ?w' = ledger w"
    using executeMigration_up_ledger [of sv repositories ?tok True w] by (auto simp: up)
  have b: "truthyArg args 2 \<noteq> Some ''up'' \<or> truthyArg args 3 = Some ''test'' \<longrightarrow> ledger ?w' = ledger w"
    using other test by blast
  have c: "truthyArg args 2 = Some ''up'' \<and> truthyArg args 3 \<noteq> Some ''test'' \<longrightarrow>
        (\<exists>cs news. calls ?w' = calls w @ cs \<and> ledger ?w' = ledger w @ news
           \<and> map filename news = map (fst \<circ> snd) (filter (\<lambda>c. snd (snd c) = Resolved ()) cs))"
    using executeMigration_up_ledger [of sv repositories ?tok False w] by (auto simp: up)
  have a: "\<exists>news. ledger ?w' = ledger w @ news"
  proof (cases "truthyArg args 2 = Some ''up'' \<and> truthyArg args 3 \<noteq> Some ''test''")
    case True
    with c show ?thesis by blast
  next
    case False
    with b have "ledger ?w' = ledger w @ []" by auto
    then show ?thesis by blast
  qed
  have d: "truthyArg args 2 = Some ''up'' \<and> truthyArg args 3 = Some ''test''
       \<and> truthyArg args' 2 = Some ''up'' \<and> truthyArg args' 3 \<noteq> Some ''test'' \<longrightarrow>
        fst (migrate sv args repositories w) = fst (migrate sv args' repositories w)
      \<and> store ?w' = store (snd (migrate sv args' repositories w))
      \<and> calls ?w' = calls (snd (migrate sv args' repositories w))"
    using executeMigration_test_sim [of sv repositories ?tok w ?tok'] by (auto simp: up up')
  from a b c d show ?thesis by blast
qed

text \<open>
  With \<open>tags\<close> and \<open>users\<close> pending, \<open>up\<close> ledgers \<open>users\<close> then \<open>tags\<close>;
  \<open>up test\<close> makes the same two calls and ledgers nothing; \<open>down users\<close> leaves the
  ledger holding \<open>users\<close>.
\<close>

theorem ledger_changed_only_by_recording_forward_run_witness:
  "map filename (ledger (snd (migrate demo [''node'', ''migrate'', ''up''] None
       (demoWorld [tagsFile, usersFile] [])))) = [usersFile, tagsFile]
   \<and> ledger (snd (migrate demo [''node'', ''migrate'', ''up'', ''test''] None
       (demoWorld [tagsFile, usersFile] []))) = []
   \<and> calls (snd (migrate demo [''node'', ''migrate'', ''up'', ''test''] None
       (demoWorld [tagsFile, usersFile] [])))
      = [(''up'', usersFile, Resolved ()), (''up'', tagsFile, Resolved ())]
   \<and> ledger (snd (migrate demo [''node'', ''migrate'', ''down'', ''users''] None
       (demoWorld [] [usersFile]))) = ledger (demoWorld [] [usersFile])"
proof -
  let ?w = "demoWorld [tagsFile, usersFile] []"
  let ?up = "[''node'', ''migrate'', ''up'']"
  let ?test = "[''node'', ''migrate'', ''up'', ''test'']"
  let ?down = "[''node'', ''migrate'', ''down'', ''users'']"
  have a2: "truthyArg ?up 2 = Some ''up''" "truthyArg ?test 2 = Some ''up''"
    "truthyArg ?down 2 = Some ''down''"
    and a3: "truthyArg ?up 3 = None" "truthyArg ?test 3 = Some ''test''"
    by (simp_all add: numeral_2_eq_2 numeral_3_eq_3)
  have cs: "calls (snd (migrate demo ?up None ?w))
      = calls ?w @ [(''up'', usersFile, Resolved ()), (''up'', tagsFile, Resolved ())]"
    by (simp add: demo_eval numeral_2_eq_2 numeral_3_eq_3 del: sortFiles.simps)
  note recording = ledger_changed_only_by_recording_forward_run [of demo ?up None ?w ?up]
  from recording a2 a3 obtain cs' news where
    o1: "calls (snd (migrate demo ?up None ?w)) = calls ?w @ cs'"
    and o2: "ledger (snd (migrate demo ?up None ?w)) = ledger ?w @ news"
    and o3: "map filename news = map (fst \<circ> snd) (filter (\<lambda>c. snd (snd c) = Resolved ()) cs')"
    by auto
  from o1 cs have "cs' = [(''up'', usersFile, Resolved ()), (''up'', tagsFile, Resolved ())]"
    by simp
  with o3 have "map filename news = [usersFile, tagsFile]" by simp
  with o2 have l1: "map filename (ledger (snd (migrate demo ?up None ?w))) = [usersFile, tagsFile]"
    by (simp add: demoWorld_def)
  note testing = ledger_changed_only_by_recording_forward_run [of demo ?test None ?w ?up]
  from testing a2 a3 have l2: "ledger (snd (migrate demo ?test None ?w)) = ledger ?w"
    and c2: "calls (snd (migrate demo ?test None ?w)) = calls (snd (migrate demo ?up None ?w))"
    by simp_all
  note reverting = ledger_changed_only_by_recording_forward_run
    [of demo ?down None "demoWorld [] [usersFile]" ?up]
  from reverting a2 have l3: "ledger (snd (migrate demo ?down None (demoWorld [] [usersFile])))
      = ledger (demoWorld [] [usersFile])" by simp
  from l1 l2 c2 cs l3 show ?thesis by (simp add: demoWorld_def)
qed

section \<open>Missing arguments\<close>

text \<open>
  Claim C8, as the spec states it: \<open>create\<close> without a name and \<open>down\<close> without a
  token would print the missing argument and raise nothing. For \<open>create\<close> the promise is
  rejected with the error \<open>Filename is missing\<close> and nothing is printed; and \<open>down\<close>
  reads the migrations directory before it looks at the token, so that where the directory
  is missing it is rejected too.
\<close>

theorem create_without_name_counterexample:
  "fst (migrate demo [''node'', ''migrate'', ''create''] None bareWorld)
     = Rejected (Error ''Filename is missing'')
   \<and> printed (snd (migrate demo [''node'', ''migrate'', ''create''] None bareWorld)) = []
   \<and> fst (migrate demo [''node'', ''migrate'', ''down''] None bareWorld)
     = Rejected (Error (''ENOENT: no such file or directory, scandir '' @ [CHR 0x27]
         @ ''/app/src/migrations'' @ [CHR 0x27]))"
  by (simp add: migrate_def executeMigration_def readDir_def demo_def bareWorld_def
      unlistedWorld_def numeral_2_eq_2 numeral_3_eq_3)

text \<open>
  Claim C8, amended. \<open>create\<close> without a name is rejected with the error
  \<open>Filename is missing\<close>, the world untouched: no file is written, the ledger is
  neither read nor written, nothing is printed. \<open>down\<close> without a token lists the
  migrations directory first. Where the directory can be listed, it then reads the ledger,
  once, prints \<open>Filename is missing\<close> and is fulfilled, the world otherwise untouched: no
  unit is called and the ledger is not written. Where the directory cannot be listed,
  \<open>down\<close> is rejected with the error of the listing, the world untouched, the ledger
  not read.
\<close>

theorem missing_argument_outcomes:
  "(truthyArg args 2 = Some ''create'' \<and> truthyArg args 3 = None \<longrightarrow>
      migrate sv args repositories w = (Rejected (Error ''Filename is missing''), w)
    \<and> finds (snd (migrate sv args repositories w)) = finds w)
   \<and> (truthyArg args 2 = Some ''down'' \<and> truthyArg args 3 = None \<and> migrationsDir w \<noteq> None \<longrightarrow>
      migrate sv args repositories w
        = (Resolved (), debug ''Filename is missing'' (snd (migrationRepo_find w)))
    \<and> finds (snd (migrate sv args repositories w)) = Suc (finds w)
    \<and> calls (snd (migrate sv args repositories w)) = calls w
    \<and> ledger (snd (migrate sv args repositories w)) = ledger w)
   \<and> (truthyArg args 2 = Some ''down'' \<and> truthyArg args 3 = None \<and> migrationsDir w = None \<longrightarrow>
      (\<exists>e. readDir sv w = Inl e \<and> migrate sv args repositories w = (Rejected e, w))
    \<and> finds (snd (migrate sv args repositories w)) = finds w)"
proof -
  have create: "truthyArg args 2 = Some ''create'' \<Longrightarrow> truthyArg args 3 = None \<Longrightarrow>
      migrate sv args repositories w = (Rejected (Error ''Filename is missing''), w)"
    by (simp add: migrate_def Let_def)
  have listed: "truthyArg args 2 = Some ''down'' \<Longrightarrow> truthyArg args 3 = None \<Longrightarrow>
      migrationsDir w \<noteq> None \<Longrightarrow>
      migrate sv args repositories w
        = (Resolved (), debug ''Filename is missing'' (snd (migrationRepo_find w)))"
    by (auto simp: migrate_def Let_def executeMigration_def readDir_def migrationRepo_find_def)
  have unlisted: "truthyArg args 2 = Some ''down'' \<Longrightarrow> truthyArg args 3 = None \<Longrightarrow>
      migrationsDir w = None \<Longrightarrow>
      migrate sv args repositories w
        = (Rejected (Error (''ENOENT: no such file or directory, scandir '' @ [CHR 0x27]
             @ rawMigrationDir sv @ [CHR 0x27])), w)
      \<and> readDir sv w = Inl (Error (''ENOENT: no such file or directory, scandir '' @ [CHR 0x27]
             @ rawMigrationDir sv @ [CHR 0x27]))"
    by (simp add: migrate_def Let_def executeMigration_def readDir_def)
  from create listed unlisted show ?thesis by auto
qed

text \<open>
  Both actions without their argument where the migrations directory is there and empty,
  and \<open>down\<close> where it is missing.
\<close>

theorem missing_argument_outcomes_witness:
  "migrate demo [''node'', ''migrate'', ''create''] None (demoWorld [] [])
     = (Rejected (Error ''Filename is missing''), demoWorld [] [])
   \<and> migrate demo [''node'', ''migrate'', ''down''] None (demoWorld [] [])
     = (Resolved (), debug ''Filename is missing'' (snd (migrationRepo_find (demoWorld [] []))))
   \<and> finds (snd (migrate demo [''node'', ''migrate'', ''create''] None (demoWorld [] []))) = 0
   \<and> finds (snd (migrate demo [''node'', ''migrate'', ''down''] None (demoWorld [] []))) = 1
   \<and> migrate demo [''node'', ''migrate'', ''down''] None bareWorld
     = (Rejected (Error (''ENOENT: no such file or directory, scandir '' @ [CHR 0x27]
          @ ''/app/src/migrations'' @ [CHR 0x27])), bareWorld)"
  using missing_argument_outcomes [of "[''node'', ''migrate'', ''create'']" demo None "demoWorld [] []"]
    missing_argument_outcomes [of "[''node'', ''migrate'', ''down'']" demo None "demoWorld [] []"]
    missing_argument_outcomes [of "[''node'', ''migrate'', ''down'']" demo None bareWorld]
  by (simp add: numeral_2_eq_2 numeral_3_eq_3 demoWorld_def bareWorld_def unlistedWorld_def
      demo_def readDir_def)

section \<open>The outcome of a backup\<close>

lemma demo_backup_name: "appendTimestampToFilename instant ''db'' None = ''db_05-07-2024_030405''"
  by code_simp

text \<open>
  Claim C9, as the spec states it: the backup would fail whenever the dump process ends
  with an exit code other than 0. In the installation above the shell that runs
  \<open>mongodump\<close> closes with exit code 1, and the backup is fulfilled with \<open>true\<close>.
\<close>

theorem backup_exit_code_counterexample:
  "spawn demo ''sh'' [''-c'', ''mongodump -o /app/backup/db_05-07-2024_030405 --uri=mongodb://127.0.0.1:27017/app'']
     = [CloseEvent (Some 1)]
   \<and> fst (backupMongoDb demo (demoWorld [] [])) = Resolved True"
  by (simp add: backupMongoDb_def demo_def demoOptions_def Let_def newDate_def demo_backup_name)

text \<open>
  Claim C9, amended. The backup is settled by the first event of the spawned shell: it is
  rejected, with the error of the event, when that is an \<open>error\<close> event, as when the
  process cannot be launched; it is fulfilled with \<open>true\<close> when that is \<open>close\<close>,
  whatever the exit code; and it stays pending while there is no event.
\<close>

theorem backup_settled_by_first_event:
  "\<exists>pathForDbBackup. fst (backupMongoDb sv w) =
     (case spawn sv ''sh'' [''-c'', ''mongodump -o '' @ pathForDbBackup @ '' --uri='' @
               (case DATASOURCE_URL (backUpOptions sv) of
                  Some u \<Rightarrow> u
                | None \<Rightarrow> ''mongodb://127.0.0.1:27017/mongodbName?retryWrites=true&w=majority'')] of
        [] \<Rightarrow> Pending
      | ErrorEvent e # rest \<Rightarrow> Rejected e
      | CloseEvent code # rest \<Rightarrow> Resolved True)"
proof -
  let ?path = "pathJoin sv (case ROOT_DIR (backUpOptions sv) of Some r \<Rightarrow> r | None \<Rightarrow> rootDir sv)
      ((case DB_BACKUP_DIR (backUpOptions sv) of Some b \<Rightarrow> b | None \<Rightarrow> ''../backup'') @ ''/'' @
         appendTimestampToFilename (clock sv (ticks w)) ''db'' None)"
  have "fst (backupMongoDb sv w) =
     (case spawn sv ''sh'' [''-c'', ''mongodump -o '' @ ?path @ '' --uri='' @
               (case DATASOURCE_URL (backUpOptions sv) of
                  Some u \<Rightarrow> u
                | None \<Rightarrow> ''mongodb://127.0.0.1:27017/mongodbName?retryWrites=true&w=majority'')] of
        [] \<Rightarrow> Pending
      | ErrorEvent e # rest \<Rightarrow> Rejected e
      | CloseEvent code # rest \<Rightarrow> Resolved True)"
    by (simp add: backupMongoDb_def Let_def newDate_def listen_first)
  then show ?thesis by blast
qed

text \<open>The installation above, whose dump process closes first.\<close>

theorem backup_settled_by_first_event_witness:
  "fst (backupMongoDb demo (demoWorld [] [])) = Resolved True"
proof -
  from backup_settled_by_first_event [of demo "demoWorld [] []"] obtain pathForDbBackup where
    eq: "fst (backupMongoDb demo (demoWorld [] [])) =
     (case spawn demo ''sh'' [''-c'', ''mongodump -o '' @ pathForDbBackup @ '' --uri='' @
               (case DATASOURCE_URL (backUpOptions demo) of
                  Some u \<Rightarrow> u
                | None \<Rightarrow> ''mongodb://127.0.0.1:27017/mongodbName?retryWrites=true&w=majority'')] of
        [] \<Rightarrow> Pending
      | ErrorEvent e # rest \<Rightarrow> Rejected e
      | CloseEvent code # rest \<Rightarrow> Resolved True)"
    by blast
  have "\<exists>code. spawn demo ''sh'' args = [CloseEvent code]" for args
    by (simp add: demo_def)
  then obtain code where "spawn demo ''sh'' [''-c'', ''mongodump -o '' @ pathForDbBackup @ '' --uri='' @
               (case DATASOURCE_URL (backUpOptions demo) of
                  Some u \<Rightarrow> u
                | None \<Rightarrow> ''mongodb://127.0.0.1:27017/mongodbName?retryWrites=true&w=majority'')]
      = [CloseEvent code]"
    by blast
  with eq show ?thesis by simp
qed

section \<open>The token of a forward run\<close>

text \<open>
  Claim C10. Two argument vectors whose action is \<open>up\<close> and whose token, present or not, is
  not \<open>test\<close> give the same run from the same world with the same service: the same promise
  and the same world after it, hence the same calls in the same order and the same ledger.
\<close>

theorem up_token_without_effect:
  assumes "truthyArg args 2 = Some ''up''" and "truthyArg args' 2 = Some ''up''"
    and "truthyArg args 3 \<noteq> Some ''test''" and "truthyArg args' 3 \<noteq> Some ''test''"
  shows "migrate sv args repositories w = migrate sv args' repositories w"
proof -
  have "executeMigration sv ''up'' repositories tok False w
      = executeMigration sv ''up'' repositories tok' False w" for tok tok'
    by (cases "readDir sv w") (simp_all add: executeMigration_def Let_def)
  with assms show ?thesis by (simp add: migrate_def Let_def)
qed

text \<open>The token \<open>users\<close> beside no token at all.\<close>

theorem up_token_without_effect_witness:
  "migrate demo [''node'', ''migrate'', ''up'', ''users''] None (demoWorld [tagsFile, usersFile] [])
     = migrate demo [''node'', ''migrate'', ''up''] None (demoWorld [tagsFile, usersFile] [])"
proof -
  have "truthyArg [''node'', ''migrate'', ''up'', ''users''] 2 = Some ''up''"
    and "truthyArg [''node'', ''migrate'', ''up''] 2 = Some ''up''"
    and "truthyArg [''node'', ''migrate'', ''up'', ''users''] 3 \<noteq> Some ''test''"
    and "truthyArg [''node'', ''migrate'', ''up''] 3 \<noteq> Some ''test''"
    by (simp_all add: numeral_2_eq_2 numeral_3_eq_3)
  then show ?thesis by (rule up_token_without_effect)
qed

end
